theory Spec2Isabelle
  imports Complex_Main "HOL-Library.Multiset" "HOL-Library.Word"
begin

section \<open>Values, errors and arrays\<close>

text \<open>
  The module \<open>protis/threed/lattice.py\<close> computes with Python numbers and with arrays
  of the numeric backend \<open>bk\<close> (numpy by default). Floating-point numbers are modelled
  as the real numbers they approximate, and the arithmetic of the backend as the exact
  operations on \<open>real\<close>, with two exceptions, where the rounding decides more than a
  digit: the power \<open>x ** y\<close> of two floats, which decides the integer \<open>NGroot\<close>, and
  the inversion of a matrix that is singular, which raises or does not. Both are
  parameters of the functions that use them (the record \<open>numerics\<close> below). Integer
  arrays are arrays of 64-bit integers, whose arithmetic wraps around. Exceptions are
  values of type \<open>error\<close>, and a function that can raise returns \<open>error + 'a\<close>.
\<close>

datatype error =
  ValueError | TypeError | NotImplementedError | LinAlgError | OverflowError

text \<open>
  A Python number: an \<open>int\<close>, a finite \<open>float\<close>, an infinite \<open>float\<close> or the
  \<open>float\<close> that is not a number.
\<close>

datatype number = PyInt int | PyFloat real | PyInf | PyNaN

text \<open>
  \<open>int(x)\<close>: an \<open>int\<close> is kept, a finite \<open>float\<close> is truncated towards zero, an
  infinity raises \<open>OverflowError\<close> and a NaN \<open>ValueError\<close>.
\<close>

definition trunc_real :: "real \<Rightarrow> int" where
  "trunc_real x = (if 0 \<le> x then \<lfloor>x\<rfloor> else \<lceil>x\<rceil>)"

fun py_int :: "number \<Rightarrow> error + int" where
  "py_int (PyInt n) = Inr n"
| "py_int (PyFloat x) = Inr (trunc_real x)"
| "py_int PyInf = Inl OverflowError"
| "py_int PyNaN = Inl ValueError"

text \<open>The comparison \<open>i == x\<close> of an \<open>int\<close> with a number.\<close>

fun int_equals :: "int \<Rightarrow> number \<Rightarrow> bool" where
  "int_equals i (PyInt n) \<longleftrightarrow> i = n"
| "int_equals i (PyFloat x) \<longleftrightarrow> real_of_int i = x"
| "int_equals i PyInf \<longleftrightarrow> False"
| "int_equals i PyNaN \<longleftrightarrow> False"

text \<open>
  The power of two floats: \<open>pw x y\<close> is the float that \<open>x ** y\<close> evaluates to.
  \<open>exact_pow\<close> is the exact power, which a floating-point power approximates.
\<close>

type_synonym float_pow = "real \<Rightarrow> real \<Rightarrow> real"

definition exact_pow :: float_pow where
  "exact_pow x y = x powr y"

text \<open>Three-vectors and 3x3 matrices (a matrix is the triple of its rows).\<close>

type_synonym vec3 = "real \<times> real \<times> real"
type_synonym mat3 = "vec3 \<times> vec3 \<times> vec3"

text \<open>
  Python indexing into a sequence of length three: \<open>-1\<close> is the last element. The
  module only indexes with \<open>-1, 0, 1, 2\<close>.
\<close>

fun index3 :: "'a \<times> 'a \<times> 'a \<Rightarrow> int \<Rightarrow> 'a" where
  "index3 (a, b, c) i =
     (if i = 0 \<or> i = -3 then a else if i = 1 \<or> i = -2 then b else c)"

text \<open>
  A basis vector as the caller gives it: a tuple of Python \<open>int\<close>s (each in the
  range of a 64-bit integer), which the backend reads as an array of 64-bit integers,
  or a tuple with a \<open>float\<close> in it, which it reads as an array of floats.
  \<open>float_vec\<close> is the cast to floats.
\<close>

datatype pyvec = IntVec "64 word" "64 word" "64 word" | FloatVec real real real

fun float_vec :: "pyvec \<Rightarrow> vec3" where
  "float_vec (IntVec a b c) = (real_of_int (sint a), real_of_int (sint b), real_of_int (sint c))"
| "float_vec (FloatVec x y z) = (x, y, z)"

text \<open>A scalar of the backend: a 64-bit integer or a float.\<close>

datatype pyscalar = IntScalar "64 word" | FloatScalar real

fun map3 :: "('a \<Rightarrow> 'b) \<Rightarrow> 'a \<times> 'a \<times> 'a \<Rightarrow> 'b \<times> 'b \<times> 'b" where
  "map3 f (a, b, c) = (f a, f b, f c)"

fun dot :: "vec3 \<Rightarrow> vec3 \<Rightarrow> real" where
  "dot (a1, a2, a3) (b1, b2, b3) = a1 * b1 + a2 * b2 + a3 * b3"

fun cross :: "vec3 \<Rightarrow> vec3 \<Rightarrow> vec3" where
  "cross (a1, a2, a3) (b1, b2, b3) =
     (a2 * b3 - a3 * b2, a3 * b1 - a1 * b3, a1 * b2 - a2 * b1)"

text \<open>\<open>bk.linalg.norm\<close> of a vector, and of a scalar (a 0-dimensional array).\<close>

definition norm_vec :: "vec3 \<Rightarrow> real" where
  "norm_vec v = sqrt (dot v v)"

definition norm_scalar :: "real \<Rightarrow> real" where
  "norm_scalar x = sqrt (x * x)"

text \<open>
  \<open>bk.cross\<close>, the product \<open>@\<close> of two vectors and \<open>bk.linalg.norm\<close> on the arrays
  as the caller gives them: two integer arrays are combined in 64-bit integer
  arithmetic, otherwise both are cast to floats; the norm casts an integer to a float.
\<close>

fun cross_py :: "pyvec \<Rightarrow> pyvec \<Rightarrow> pyvec" where
  "cross_py (IntVec a1 a2 a3) (IntVec b1 b2 b3) =
     IntVec (a2 * b3 - a3 * b2) (a3 * b1 - a1 * b3) (a1 * b2 - a2 * b1)"
| "cross_py a b = (case cross (float_vec a) (float_vec b) of (x, y, z) \<Rightarrow> FloatVec x y z)"

fun dot_py :: "pyvec \<Rightarrow> pyvec \<Rightarrow> pyscalar" where
  "dot_py (IntVec a1 a2 a3) (IntVec b1 b2 b3) = IntScalar (a1 * b1 + a2 * b2 + a3 * b3)"
| "dot_py a b = FloatScalar (dot (float_vec a) (float_vec b))"

fun norm_py :: "pyscalar \<Rightarrow> real" where
  "norm_py (IntScalar w) = norm_scalar (real_of_int (sint w))"
| "norm_py (FloatScalar x) = norm_scalar x"

fun transpose3 :: "mat3 \<Rightarrow> mat3" where
  "transpose3 ((a11, a12, a13), (a21, a22, a23), (a31, a32, a33)) =
     ((a11, a21, a31), (a12, a22, a32), (a13, a23, a33))"

fun det3 :: "mat3 \<Rightarrow> real" where
  "det3 ((a11, a12, a13), (a21, a22, a23), (a31, a32, a33)) =
     a11 * (a22 * a33 - a23 * a32) - a12 * (a21 * a33 - a23 * a31)
       + a13 * (a21 * a32 - a22 * a31)"

fun scale3 :: "real \<Rightarrow> mat3 \<Rightarrow> mat3" where
  "scale3 s ((a11, a12, a13), (a21, a22, a23), (a31, a32, a33)) =
     ((s * a11, s * a12, s * a13), (s * a21, s * a22, s * a23),
      (s * a31, s * a32, s * a33))"

fun matmul3 :: "mat3 \<Rightarrow> mat3 \<Rightarrow> mat3" where
  "matmul3 (r1, r2, r3) B =
     (case transpose3 B of (c1, c2, c3) \<Rightarrow>
        ((dot r1 c1, dot r1 c2, dot r1 c3),
         (dot r2 c1, dot r2 c2, dot r2 c3),
         (dot r3 c1, dot r3 c2, dot r3 c3)))"

definition identity3 :: mat3 where
  "identity3 = ((1, 0, 0), (0, 1, 0), (0, 0, 1))"

text \<open>
  The two operations whose rounding is not idealised: \<open>float_power x y\<close> is the float
  that \<open>x ** y\<close> evaluates to, and \<open>inv_singular m\<close> is what \<open>bk.linalg.inv\<close> does on
  a matrix \<open>m\<close> that is singular in exact arithmetic: it raises \<open>LinAlgError\<close>
  (\<open>None\<close>) when its floating-point factorisation meets a zero pivot, and returns some
  matrix otherwise.
\<close>

record numerics =
  float_power :: float_pow
  inv_singular :: "mat3 \<Rightarrow> mat3 option"

text \<open>
  Numerics in which the power is exact and the inversion raises on every singular
  matrix.
\<close>

definition exact_numerics :: numerics where
  "exact_numerics = \<lparr>float_power = exact_pow, inv_singular = (\<lambda>m. None)\<rparr>"

text \<open>The inverse of an invertible matrix, by cofactors.\<close>

fun cofactor_inverse :: "mat3 \<Rightarrow> mat3" where
  "cofactor_inverse ((a11, a12, a13), (a21, a22, a23), (a31, a32, a33)) =
     (let d = det3 ((a11, a12, a13), (a21, a22, a23), (a31, a32, a33)) in
        (((a22 * a33 - a23 * a32) / d, (a13 * a32 - a12 * a33) / d, (a12 * a23 - a13 * a22) / d),
         ((a23 * a31 - a21 * a33) / d, (a11 * a33 - a13 * a31) / d, (a13 * a21 - a11 * a23) / d),
         ((a21 * a32 - a22 * a31) / d, (a12 * a31 - a11 * a32) / d, (a11 * a22 - a12 * a21) / d)))"

text \<open>\<open>bk.linalg.inv\<close>.\<close>

definition inv3 :: "numerics \<Rightarrow> mat3 \<Rightarrow> error + mat3" where
  "inv3 nu m =
     (if det3 m = 0 then
        (case inv_singular nu m of None \<Rightarrow> Inl LinAlgError | Some mi \<Rightarrow> Inr mi)
      else Inr (cofactor_inverse m))"

text \<open>
  Linear independence of three vectors: the only linear combination that vanishes is
  the trivial one.
\<close>

fun lincomb :: "real \<Rightarrow> vec3 \<Rightarrow> real \<Rightarrow> vec3 \<Rightarrow> real \<Rightarrow> vec3 \<Rightarrow> vec3" where
  "lincomb a (x0, y0, z0) b (x1, y1, z1) c (x2, y2, z2) =
     (a * x0 + b * x1 + c * x2, a * y0 + b * y1 + c * y2, a * z0 + b * z1 + c * z2)"

definition linearly_independent :: "vec3 \<Rightarrow> vec3 \<Rightarrow> vec3 \<Rightarrow> bool" where
  "linearly_independent v0 v1 v2 =
     (\<forall>a b c. lincomb a v0 b v1 c v2 = (0, 0, 0) \<longrightarrow> a = 0 \<and> b = 0 \<and> c = 0)"

text \<open>
  An integer array of shape \<open>(3, n)\<close>, as \<open>harmonics_array\<close> and the result of
  \<open>get_harmonics\<close> are: the triple of its rows, all of length \<open>n\<close>.
  \<open>shape1\<close> is \<open>bk.shape(A)[1]\<close>, and \<open>columns\<close> lists the columns
  \<open>(A[0][p], A[1][p], A[2][p])\<close>.
\<close>

type_synonym harmonics = "int list \<times> int list \<times> int list"

fun shape1 :: "harmonics \<Rightarrow> nat" where
  "shape1 (g0, g1, g2) = length g0"

fun columns :: "'a list \<times> 'a list \<times> 'a list \<Rightarrow> ('a \<times> 'a \<times> 'a) list" where
  "columns (g0, g1, g2) = zip g0 (zip g1 g2)"

section \<open>The class Lattice\<close>

record lattice =
  truncation :: string
  basis_vectors :: "pyvec \<times> pyvec \<times> pyvec"
  discretization :: "number list"
  harmonics_array :: "harmonics option"

text \<open>
  The argument \<open>discretization\<close> of the constructor is a single number or a sequence
  of numbers.
\<close>

datatype discretization_arg = Scalar (the_number: number) | Sequence (the_list: "number list")

text \<open>
  Modelled from the spec: \<open>is_scalar\<close> of \<open>protis.utils\<close>, which is not among the
  sources; it tells a single number from a sequence.
\<close>

fun is_scalar :: "discretization_arg \<Rightarrow> bool" where
  "is_scalar (Scalar _) = True"
| "is_scalar (Sequence _) = False"

text \<open>The first statement of \<open>__init__\<close>: the list \<open>discretization\<close> is rebound to.\<close>

definition discretization_list :: "discretization_arg \<Rightarrow> number list" where
  "discretization_list d =
     (if is_scalar d then [the_number d, the_number d] else the_list d)"

definition Lattice_init ::
  "pyvec \<times> pyvec \<times> pyvec \<Rightarrow> discretization_arg \<Rightarrow> string \<Rightarrow> harmonics option
     \<Rightarrow> error + lattice" where
  "Lattice_init bv d t ha =
     (let disc = discretization_list d in
      if t \<notin> set [''spherical'', ''parallelogrammic''] then Inl ValueError
      else Inr \<lparr>truncation = t, basis_vectors = bv, discretization = disc,
                harmonics_array = ha\<rparr>)"

text \<open>The default of the parameter \<open>discretization\<close>: \<open>2**8\<close>.\<close>

definition default_discretization :: discretization_arg where
  "default_discretization = Scalar (PyInt (2 ^ 8))"

text \<open>\<open>volume\<close> computes on the basis vectors as given, with no cast.\<close>

definition volume :: "lattice \<Rightarrow> real" where
  "volume L =
     (let v = basis_vectors L in
      norm_py (dot_py (cross_py (index3 v 0) (index3 v 1)) (index3 v 2)))"

text \<open>\<open>matrix\<close> casts the basis vectors to floats (\<open>dtype=bk.float64\<close>).\<close>

definition matrix :: "lattice \<Rightarrow> mat3" where
  "matrix L = transpose3 (map3 float_vec (basis_vectors L))"

definition reciprocal :: "numerics \<Rightarrow> lattice \<Rightarrow> error + mat3" where
  "reciprocal nu L =
     (case inv3 nu (matrix L) of
        Inl e \<Rightarrow> Inl e
      | Inr Mi \<Rightarrow> Inr (scale3 (2 * pi) (transpose3 Mi)))"

section \<open>Backend array operations\<close>

text \<open>\<open>bk.arange(a, b)\<close>: the integers from \<open>a\<close> up to, but without, \<open>b\<close>.\<close>

definition arange :: "int \<Rightarrow> int \<Rightarrow> int list" where
  "arange a b = [a..b - 1]"

text \<open>
  \<open>bk.meshgrid(xs, ys, zs, indexing="ij")\<close>: three arrays of shape
  \<open>(len xs, len ys, len zs)\<close>, as nested lists; at position \<open>[i][j][k]\<close> the first
  holds \<open>xs[i]\<close>, the second \<open>ys[j]\<close> and the third \<open>zs[k]\<close>.
\<close>

definition meshgrid_ij ::
  "'a list \<Rightarrow> 'a list \<Rightarrow> 'a list \<Rightarrow>
   'a list list list \<times> 'a list list list \<times> 'a list list list" where
  "meshgrid_ij xs ys zs =
     (map (\<lambda>x. map (\<lambda>y. map (\<lambda>z. x) zs) ys) xs,
      map (\<lambda>x. map (\<lambda>y. map (\<lambda>z. y) zs) ys) xs,
      map (\<lambda>x. map (\<lambda>y. map (\<lambda>z. z) zs) ys) xs)"

text \<open>\<open>g.flatten()\<close> of a three-dimensional array, in row-major order.\<close>

definition flatten :: "'a list list list \<Rightarrow> 'a list" where
  "flatten g = concat (map concat g)"

text \<open>
  \<open>bk.argsort(keys)\<close>: the indices of \<open>keys\<close> in ascending order of their keys.
  The order among equal keys is the backend's; here it is the stable one.
\<close>

definition argsort :: "real list \<Rightarrow> nat list" where
  "argsort keys = sort_key (\<lambda>j. keys ! j) [0..<length keys]"

text \<open>\<open>g[jsort]\<close>: the elements of \<open>g\<close> at the indices \<open>jsort\<close>.\<close>

definition take_indices :: "'a list \<Rightarrow> nat list \<Rightarrow> 'a list" where
  "take_indices g js = map (\<lambda>j. g ! j) js"

text \<open>The slice \<open>xs[:n]\<close>; a negative \<open>n\<close> counts from the end.\<close>

definition slice_to :: "int \<Rightarrow> 'a list \<Rightarrow> 'a list" where
  "slice_to n xs = (if 0 \<le> n then take (nat n) xs else take (length xs - nat (- n)) xs)"

text \<open>
  \<open>bk.linspace(start, stop, num)\<close>: \<open>num\<close> evenly spaced samples from \<open>start\<close>
  to \<open>stop\<close>, both included; a single sample is \<open>start\<close>. A \<open>num\<close> that is not an
  \<open>int\<close> raises \<open>TypeError\<close>, a negative one \<open>ValueError\<close>.
\<close>

fun linspace :: "real \<Rightarrow> real \<Rightarrow> number \<Rightarrow> error + real list" where
  "linspace start stop (PyFloat x) = Inl TypeError"
| "linspace start stop PyInf = Inl TypeError"
| "linspace start stop PyNaN = Inl TypeError"
| "linspace start stop (PyInt n) =
     (if n < 0 then Inl ValueError
      else Inr (map (\<lambda>i. if n = 1 then start
                          else start + of_nat i * ((stop - start) / of_int (n - 1)))
                 [0..<nat n]))"

section \<open>Harmonics\<close>

text \<open>
  One pass of the loop \<open>for i in range(-1, 2)\<close> of \<open>_parallelogramic_truncation\<close>:
  \<open>Gl2 += G[i]**2 * u[i]**2 + G[i+1]**2 * u[i+1]**2 + 2 * G[i] * G[i+1] * udot\<close>,
  elementwise on the flattened arrays.
\<close>

definition Gl2_step :: "mat3 \<Rightarrow> vec3 \<Rightarrow> harmonics \<Rightarrow> real list \<Rightarrow> int \<Rightarrow> real list" where
  "Gl2_step Lk u G acc i =
     (let udot = dot (index3 Lk i) (index3 Lk (i + 1)) in
      map2 (+) acc
        (map2 (\<lambda>gi gj. (of_int gi)\<^sup>2 * (index3 u i)\<^sup>2 + (of_int gj)\<^sup>2 * (index3 u (i + 1))\<^sup>2
                        + 2 * of_int gi * of_int gj * udot)
           (index3 G i) (index3 G (i + 1))))"

text \<open>The whole loop, from \<open>Gl2 = 0\<close> (broadcast to the length of the arrays).\<close>

definition Gl2_of :: "mat3 \<Rightarrow> harmonics \<Rightarrow> real list" where
  "Gl2_of Lk G =
     (let u = map3 norm_vec Lk in
      foldl (Gl2_step Lk u G) (replicate (shape1 G) 0) [-1, 0, 1])"

text \<open>
  \<open>int((nh) ** (1 / 3))\<close>, for \<open>nh \<ge> 0\<close> (the power of a negative number is a complex
  number, which \<open>int\<close> refuses), with \<open>pw\<close> the power of the floats.
\<close>

definition cube_root_floor :: "float_pow \<Rightarrow> int \<Rightarrow> int" where
  "cube_root_floor pw nh = trunc_real (pw (real_of_int nh) (1 / 3))"

definition parallelogramic_truncation ::
  "float_pow \<Rightarrow> int \<Rightarrow> mat3 \<Rightarrow> error + harmonics \<times> int" where
  "parallelogramic_truncation pw nh Lk =
     (if nh < 0 then Inl TypeError
      else
        let NGroot = cube_root_floor pw nh;
            NGroot = (if NGroot mod 2 = 0 then NGroot - 1 else NGroot);
            M = NGroot div 2;
            xG = arange (- M) (NGroot - M);
            G = map3 flatten (meshgrid_ij xG xG xG);
            Gl2 = Gl2_of Lk G;
            jsort = argsort Gl2;
            Gsorted = map3 (\<lambda>g. take_indices g jsort) G;
            nh' = NGroot ^ 3
        in Inr (map3 (slice_to nh') Gsorted, nh'))"

definition spherical_truncation :: "int \<Rightarrow> mat3 \<Rightarrow> error + harmonics \<times> int" where
  "spherical_truncation nh Lk = Inl NotImplementedError"

text \<open>
  \<open>get_harmonics\<close>. The check \<open>int(nh) != nh\<close> raises what \<open>int\<close> raises; past it
  the value of \<open>nh\<close> is the integer \<open>i\<close>, and the truncations take it as one.
\<close>

definition get_harmonics :: "numerics \<Rightarrow> lattice \<Rightarrow> number \<Rightarrow> error + harmonics \<times> int" where
  "get_harmonics nu L nh =
     (case harmonics_array L of
        Some ha \<Rightarrow> Inr (ha, int (shape1 ha))
      | None \<Rightarrow>
          (case py_int nh of
             Inl e \<Rightarrow> Inl e
           | Inr i \<Rightarrow>
               if \<not> int_equals i nh then Inl ValueError
               else if truncation L = ''spherical'' then
                 (case reciprocal nu L of
                    Inl e \<Rightarrow> Inl e
                  | Inr Lk \<Rightarrow> spherical_truncation i Lk)
               else
                 (case reciprocal nu L of
                    Inl e \<Rightarrow> Inl e
                  | Inr Lk \<Rightarrow> parallelogramic_truncation (float_power nu) i Lk)))"

section \<open>Grids\<close>

text \<open>
  \<open>unit_grid\<close>: unpacking \<open>Nx, Ny, Nz = self.discretization\<close> raises \<open>ValueError\<close>
  unless the tuple has three entries. The result of \<open>bk.stack\<close> is the list of the
  three coordinate arrays.
\<close>

definition unit_grid :: "lattice \<Rightarrow> error + real list list list list" where
  "unit_grid L =
     (case discretization L of
        [Nx, Ny, Nz] \<Rightarrow>
          (case linspace 0 1 Nx of
             Inl e \<Rightarrow> Inl e
           | Inr x0 \<Rightarrow>
               (case linspace 0 1 Ny of
                  Inl e \<Rightarrow> Inl e
                | Inr y0 \<Rightarrow>
                    (case linspace 0 1 Nz of
                       Inl e \<Rightarrow> Inl e
                     | Inr z0 \<Rightarrow>
                         (case meshgrid_ij x0 y0 z0 of
                            (x_, y_, z_) \<Rightarrow> Inr [x_, y_, z_]))))
      | _ \<Rightarrow> Inl ValueError)"

text \<open>
  The value the loop of \<open>_parallelogramic_truncation\<close> accumulates at one position
  of the flattened arrays, as a function of the column \<open>(G[0][p], G[1][p], G[2][p])\<close>
  there (lemma \<open>Gl2_of_columns\<close> below).
\<close>

fun Gl2_at :: "mat3 \<Rightarrow> int \<times> int \<times> int \<Rightarrow> real" where
  "Gl2_at (l0, l1, l2) (a, b, c) =
     0 + ((of_int c)\<^sup>2 * (norm_vec l2)\<^sup>2 + (of_int a)\<^sup>2 * (norm_vec l0)\<^sup>2
            + 2 * of_int c * of_int a * dot l2 l0)
       + ((of_int a)\<^sup>2 * (norm_vec l0)\<^sup>2 + (of_int b)\<^sup>2 * (norm_vec l1)\<^sup>2
            + 2 * of_int a * of_int b * dot l0 l1)
       + ((of_int b)\<^sup>2 * (norm_vec l1)\<^sup>2 + (of_int c)\<^sup>2 * (norm_vec l2)\<^sup>2
            + 2 * of_int b * of_int c * dot l1 l2)"

text \<open>A matrix whose rows are orthonormal.\<close>

fun orthonormal :: "mat3 \<Rightarrow> bool" where
  "orthonormal (l0, l1, l2) \<longleftrightarrow>
     dot l0 l0 = 1 \<and> dot l1 l1 = 1 \<and> dot l2 l2 = 1
     \<and> dot l0 l1 = 0 \<and> dot l1 l2 = 0 \<and> dot l2 l0 = 0"

section \<open>Construction\<close>

text \<open>
  C5. A scalar discretization \<open>N\<close> should be stored as \<open>(N, N, N)\<close>, as the docstring
  of the class says. The constructor builds the list \<open>[N, N]\<close>: the stored tuple has
  two entries, for the default \<open>2**8\<close> it is \<open>(256, 256)\<close>, and \<open>unit_grid\<close>, which
  unpacks three entries, raises on such a lattice.
\<close>

theorem scalar_discretization_is_pair:
  "Lattice_init bv (Scalar N) ''parallelogrammic'' ha =
     Inr \<lparr>truncation = ''parallelogrammic'', basis_vectors = bv,
          discretization = [N, N], harmonics_array = ha\<rparr>
   \<and> Lattice_init bv default_discretization ''parallelogrammic'' ha =
     Inr \<lparr>truncation = ''parallelogrammic'', basis_vectors = bv,
          discretization = [PyInt 256, PyInt 256], harmonics_array = ha\<rparr>
   \<and> (\<exists>L. Lattice_init bv default_discretization ''parallelogrammic'' ha = Inr L
          \<and> discretization L \<noteq> [PyInt 256, PyInt 256, PyInt 256]
          \<and> unit_grid L = Inl ValueError)"
  by (simp add: Lattice_init_def discretization_list_def default_discretization_def
      unit_grid_def)

text \<open>
  C8. The constructor raises \<open>ValueError\<close> exactly when the truncation string is
  neither \<open>"spherical"\<close> nor \<open>"parallelogrammic"\<close>, whatever the other arguments are;
  with one of the two strings it succeeds for every basis and every discretization
  (numbers that are not integers or not positive included) and stores its arguments.
\<close>

theorem init_validates_truncation_only:
  "(t \<noteq> ''spherical'' \<and> t \<noteq> ''parallelogrammic'' \<longrightarrow>
      Lattice_init bv d t ha = Inl ValueError)
   \<and> (t = ''spherical'' \<or> t = ''parallelogrammic'' \<longrightarrow>
      Lattice_init bv d t ha =
        Inr \<lparr>truncation = t, basis_vectors = bv,
             discretization = discretization_list d, harmonics_array = ha\<rparr>)"
  by (auto simp: Lattice_init_def)

theorem init_validates_truncation_only_witness:
  "Lattice_init (IntVec 0 0 0, IntVec 0 0 0, IntVec 0 0 0)
      (Sequence [PyFloat (-3 / 2), PyInt 0, PyInt (-7)]) ''hexagonal'' None = Inl ValueError
   \<and> Lattice_init (IntVec 0 0 0, IntVec 0 0 0, IntVec 0 0 0)
      (Sequence [PyFloat (-3 / 2), PyInt 0, PyInt (-7)]) ''spherical'' None =
        Inr \<lparr>truncation = ''spherical'', basis_vectors = (IntVec 0 0 0, IntVec 0 0 0, IntVec 0 0 0),
             discretization = [PyFloat (-3 / 2), PyInt 0, PyInt (-7)],
             harmonics_array = None\<rparr>"
  using
    init_validates_truncation_only [of "''hexagonal''" "(IntVec 0 0 0, IntVec 0 0 0, IntVec 0 0 0)"
      "Sequence [PyFloat (-3 / 2), PyInt 0, PyInt (-7)]" None]
    init_validates_truncation_only [of "''spherical''" "(IntVec 0 0 0, IntVec 0 0 0, IntVec 0 0 0)"
      "Sequence [PyFloat (-3 / 2), PyInt 0, PyInt (-7)]" None]
  by (simp add: discretization_list_def)

section \<open>Derived geometric quantities\<close>

lemma norm_scalar_abs: "norm_scalar x = \<bar>x\<bar>"
  by (simp add: norm_scalar_def)

lemma det3_transpose3: "det3 (transpose3 m) = det3 m"
  by (cases m rule: transpose3.cases) (simp add: algebra_simps)

lemma det3_triple: "det3 (v0, v1, v2) = dot (cross v0 v1) v2"
  by (cases "(v0, v1, v2)" rule: det3.cases) (simp add: algebra_simps)

text \<open>
  The volume of a lattice whose basis vectors are given as floats is the absolute value
  of the triple product \<open>cross(v0, v1) . v2\<close>, and it is the same for the two cyclic
  permutations of the basis.
\<close>

lemma volume_float_vectors:
  assumes "v0 = FloatVec a1 a2 a3" and "v1 = FloatVec b1 b2 b3" and "v2 = FloatVec c1 c2 c3"
  shows "volume (L\<lparr>basis_vectors := (v0, v1, v2)\<rparr>)
           = \<bar>dot (cross (float_vec v0) (float_vec v1)) (float_vec v2)\<bar>"
    and "volume (L\<lparr>basis_vectors := (v1, v2, v0)\<rparr>) = volume (L\<lparr>basis_vectors := (v0, v1, v2)\<rparr>)"
    and "volume (L\<lparr>basis_vectors := (v2, v0, v1)\<rparr>) = volume (L\<lparr>basis_vectors := (v0, v1, v2)\<rparr>)"
  by (simp_all add: assms volume_def norm_scalar_abs algebra_simps)

text \<open>
  C7. The volume should be the absolute value of the triple product of the basis
  vectors. \<open>volume\<close> computes on the tuples as given, without the cast to floats that
  \<open>matrix\<close> makes, so three tuples of integers are multiplied in 64-bit integer
  arithmetic: for the basis \<open>(2**32, 0, 0), (0, 2**32, 0), (0, 0, 1)\<close> the product
  \<open>2**64\<close> wraps around and the volume is \<open>0\<close>, while the triple product of the
  vectors, and the determinant of \<open>matrix\<close>, is \<open>2**64\<close>.
\<close>

theorem volume_int64_wraps:
  "volume \<lparr>truncation = ''parallelogrammic'',
      basis_vectors = (IntVec (2 ^ 32) 0 0, IntVec 0 (2 ^ 32) 0, IntVec 0 0 1),
      discretization = [PyInt 2, PyInt 2, PyInt 2], harmonics_array = None\<rparr> = 0
   \<and> \<bar>dot (cross (float_vec (IntVec (2 ^ 32) 0 0)) (float_vec (IntVec 0 (2 ^ 32) 0)))
          (float_vec (IntVec 0 0 1))\<bar> = 2 ^ 64
   \<and> \<bar>det3 (matrix \<lparr>truncation = ''parallelogrammic'',
      basis_vectors = (IntVec (2 ^ 32) 0 0, IntVec 0 (2 ^ 32) 0, IntVec 0 0 1),
      discretization = [PyInt 2, PyInt 2, PyInt 2], harmonics_array = None\<rparr>)\<bar> = 2 ^ 64"
  by (simp add: volume_def matrix_def norm_scalar_def)

lemma dependent_if_triple_zero:
  assumes D: "dot (cross v0 v1) v2 = 0"
  shows "\<exists>a b c. lincomb a v0 b v1 c v2 = (0, 0, 0) \<and> \<not> (a = 0 \<and> b = 0 \<and> c = 0)"
proof -
  obtain x0 y0 z0 where v0: "v0 = (x0, y0, z0)" by (cases v0) auto
  obtain x1 y1 z1 where v1: "v1 = (x1, y1, z1)" by (cases v1) auto
  obtain x2 y2 z2 where v2: "v2 = (x2, y2, z2)" by (cases v2) auto
  define n0 where "n0 = cross v1 v2"
  define n1 where "n1 = cross v2 v0"
  define n2 where "n2 = cross v0 v1"
  have key: "lincomb (dot n0 w) v0 (dot n1 w) v1 (dot n2 w) v2 = (0, 0, 0)" for w
  proof -
    obtain p q r where w: "w = (p, q, r)" by (cases w) auto
    from D have D': "(y0 * z1 - z0 * y1) * x2 + (z0 * x1 - x0 * z1) * y2 + (x0 * y1 - y0 * x1) * z2 = 0"
      by (simp add: v0 v1 v2)
    show ?thesis
      unfolding n0_def n1_def n2_def v0 v1 v2 w using D'
      apply (simp)
      apply (intro conjI)
      apply algebra+
      done
  qed
  have dot_self: "dot w w = 0 \<longleftrightarrow> w = (0, 0, 0)" for w
  proof -
    obtain p q r where w: "w = (p, q, r)" by (cases w) auto
    have "p * p + q * q + r * r = 0 \<longleftrightarrow> p = 0 \<and> q = 0 \<and> r = 0"
      by (smt (verit) mult_eq_0_iff zero_le_square add_nonneg_eq_0_iff)
    then show ?thesis
      by (simp add: w)
  qed
  show ?thesis
  proof (cases "n0 = (0, 0, 0) \<and> n1 = (0, 0, 0) \<and> n2 = (0, 0, 0)")
    case False
    then consider "dot n0 n0 \<noteq> 0" | "dot n1 n1 \<noteq> 0" | "dot n2 n2 \<noteq> 0"
      using dot_self by blast
    then show ?thesis
    proof cases
      case 1
      with key [of n0] show ?thesis by blast
    next
      case 2
      with key [of n1] show ?thesis by blast
    next
      case 3
      with key [of n2] show ?thesis by blast
    qed
  next
    case True
    show ?thesis
    proof (cases "v0 = (0, 0, 0)")
      case True
      then have "lincomb 1 v0 0 v1 0 v2 = (0, 0, 0)"
        by (simp add: v1 v2)
      then show ?thesis by (intro exI [of _ 1] exI [of _ 0]) simp
    next
      case False
      then have nz: "dot v0 v0 \<noteq> 0" using dot_self by blast
      from True have n2z: "y0 * z1 - z0 * y1 = 0" "z0 * x1 - x0 * z1 = 0" "x0 * y1 - y0 * x1 = 0"
        by (simp_all add: n2_def v0 v1)
      have "lincomb (- dot v0 v1) v0 (dot v0 v0) v1 0 v2 = (0, 0, 0)"
        unfolding v0 v1 v2 using n2z
        apply simp
        apply (intro conjI)
        apply algebra+
        done
      with nz show ?thesis by blast
    qed
  qed
qed

lemma linearly_independent_triple:
  "linearly_independent v0 v1 v2 \<Longrightarrow> dot (cross v0 v1) v2 \<noteq> 0"
  unfolding linearly_independent_def using dependent_if_triple_zero by blast

lemma independent_if_triple_nonzero:
  assumes D: "dot (cross v0 v1) v2 \<noteq> 0"
  shows "linearly_independent v0 v1 v2"
proof -
  obtain x0 y0 z0 where v0: "v0 = (x0, y0, z0)" by (cases v0) auto
  obtain x1 y1 z1 where v1: "v1 = (x1, y1, z1)" by (cases v1) auto
  obtain x2 y2 z2 where v2: "v2 = (x2, y2, z2)" by (cases v2) auto
  define d where "d = dot (cross v0 v1) v2"
  have d: "d = (y0 * z1 - z0 * y1) * x2 + (z0 * x1 - x0 * z1) * y2 + (x0 * y1 - y0 * x1) * z2"
    by (simp add: d_def v0 v1 v2)
  have "a = 0 \<and> b = 0 \<and> c = 0" if z: "lincomb a v0 b v1 c v2 = (0, 0, 0)" for a b c
  proof -
    from z have e: "a * x0 + b * x1 + c * x2 = 0" "a * y0 + b * y1 + c * y2 = 0"
      "a * z0 + b * z1 + c * z2 = 0"
      by (simp_all add: v0 v1 v2)
    have "a * d = (a * x0 + b * x1 + c * x2) * (y1 * z2 - z1 * y2)
                + (a * y0 + b * y1 + c * y2) * (z1 * x2 - x1 * z2)
                + (a * z0 + b * z1 + c * z2) * (x1 * y2 - y1 * x2)"
      unfolding d by (simp add: algebra_simps)
    then have a: "a * d = 0" by (simp add: e)
    have "b * d = (a * x0 + b * x1 + c * x2) * (y2 * z0 - z2 * y0)
                + (a * y0 + b * y1 + c * y2) * (z2 * x0 - x2 * z0)
                + (a * z0 + b * z1 + c * z2) * (x2 * y0 - y2 * x0)"
      unfolding d by (simp add: algebra_simps)
    then have b: "b * d = 0" by (simp add: e)
    have "c * d = (a * x0 + b * x1 + c * x2) * (y0 * z1 - z0 * y1)
                + (a * y0 + b * y1 + c * y2) * (z0 * x1 - x0 * z1)
                + (a * z0 + b * z1 + c * z2) * (x0 * y1 - y0 * x1)"
      unfolding d by (simp add: algebra_simps)
    then have c: "c * d = 0" by (simp add: e)
    from a b c D show ?thesis by (simp add: d_def)
  qed
  then show ?thesis by (simp add: linearly_independent_def)
qed

lemma linearly_independent_iff_det:
  "linearly_independent v0 v1 v2 \<longleftrightarrow> det3 (v0, v1, v2) \<noteq> 0"
  using independent_if_triple_nonzero linearly_independent_triple det3_triple by metis

lemma matmul3_scale3: "matmul3 (scale3 s a) b = scale3 s (matmul3 a b)"
  by (cases a rule: transpose3.cases; cases b rule: transpose3.cases)
    (simp add: algebra_simps)

lemma inv3_left:
  assumes "det3 m \<noteq> 0"
  shows "\<exists>mi. inv3 nu m = Inr mi \<and> matmul3 mi m = identity3"
proof -
  obtain a11 a12 a13 a21 a22 a23 a31 a32 a33
    where m: "m = ((a11, a12, a13), (a21, a22, a23), (a31, a32, a33))"
    by (cases m rule: det3.cases) auto
  define d where "d = det3 m"
  define adj where "adj =
     ((a22 * a33 - a23 * a32, a13 * a32 - a12 * a33, a12 * a23 - a13 * a22),
      (a23 * a31 - a21 * a33, a11 * a33 - a13 * a31, a13 * a21 - a11 * a23),
      (a21 * a32 - a22 * a31, a12 * a31 - a11 * a32, a11 * a22 - a12 * a21))"
  have dz: "d \<noteq> 0" using assms by (simp add: d_def)
  have "cofactor_inverse m = scale3 (1 / d) adj"
    by (simp add: m d_def adj_def Let_def)
  then have inv: "inv3 nu m = Inr (scale3 (1 / d) adj)"
    using assms by (simp add: inv3_def)
  have "matmul3 adj m = scale3 d identity3"
    by (simp add: adj_def m d_def identity3_def algebra_simps)
  then have "matmul3 (scale3 (1 / d) adj) m = scale3 (1 / d) (scale3 d identity3)"
    by (simp add: matmul3_scale3)
  also have "\<dots> = identity3"
    using dz by (simp add: identity3_def)
  finally show ?thesis using inv by blast
qed






lemma linearly_independent_unit:
  "linearly_independent (1, 0, 0) (0, 1, 0) (0, 0, 1)"
  by (simp add: linearly_independent_def)



section \<open>The harmonics of a lattice\<close>

text \<open>
  C3. A lattice built with a harmonics array returns that array, and the number of its
  columns, for every requested \<open>nh\<close> (also one that is not an integer) and for either
  truncation: neither the integer check nor a truncation is reached.
\<close>

theorem preset_harmonics_returned:
  "harmonics_array L = Some ha \<Longrightarrow> get_harmonics nu L nh = Inr (ha, int (shape1 ha))"
  by (simp add: get_harmonics_def)

theorem preset_harmonics_returned_witness:
  "harmonics_array \<lparr>truncation = ''spherical'', basis_vectors = (IntVec 0 0 0, IntVec 0 0 0, IntVec 0 0 0),
      discretization = [], harmonics_array = Some ([0, 1], [0, 0], [0, -1])\<rparr>
     = Some ([0, 1], [0, 0], [0, -1])
   \<and> get_harmonics exact_numerics \<lparr>truncation = ''spherical'', basis_vectors = (IntVec 0 0 0, IntVec 0 0 0, IntVec 0 0 0),
      discretization = [], harmonics_array = Some ([0, 1], [0, 0], [0, -1])\<rparr> (PyFloat (5 / 2))
     = Inr (([0, 1], [0, 0], [0, -1]), 2)"
  using preset_harmonics_returned [of
      "\<lparr>truncation = ''spherical'', basis_vectors = (IntVec 0 0 0, IntVec 0 0 0, IntVec 0 0 0),
        discretization = [], harmonics_array = Some ([0, 1], [0, 0], [0, -1])\<rparr>"
      "([0, 1], [0, 0], [0, -1])" exact_numerics "PyFloat (5 / 2)"]
  by simp

subsection \<open>The cube root\<close>

lemma trunc_real_floor: "0 \<le> x \<Longrightarrow> trunc_real x = \<lfloor>x\<rfloor>"
  by (simp add: trunc_real_def)

lemma cube_root_floor_between:
  assumes "real_of_int r \<le> pw (real_of_int nh) (1 / 3)"
    and "pw (real_of_int nh) (1 / 3) < real_of_int r + 1" and "0 \<le> r"
  shows "cube_root_floor pw nh = r"
proof -
  have "0 \<le> pw (real_of_int nh) (1 / 3)"
    using assms(1,3) by (meson of_int_0_le_iff order_trans)
  then have "cube_root_floor pw nh = \<lfloor>pw (real_of_int nh) (1 / 3)\<rfloor>"
    unfolding cube_root_floor_def by (rule trunc_real_floor)
  also have "\<dots> = r"
    using assms(1,2) by (simp add: floor_unique)
  finally show ?thesis .
qed

lemma floor_root3_unique:
  assumes "0 \<le> r" and "r ^ 3 \<le> nh" and "nh < (r + 1) ^ 3"
  shows "\<lfloor>root 3 (real_of_int nh)\<rfloor> = r"
proof -
  have r0: "0 \<le> real_of_int r" "0 \<le> real_of_int r + 1" using assms(1) by simp_all
  have "real_of_int r ^ 3 \<le> real_of_int nh"
    using assms(2) by (metis of_int_le_iff of_int_power)
  then have "root 3 (real_of_int r ^ 3) \<le> root 3 (real_of_int nh)"
    by (rule real_root_le_mono [rotated]) simp
  then have lo: "real_of_int r \<le> root 3 (real_of_int nh)"
    using real_root_power_cancel [of 3 "real_of_int r"] r0 by simp
  have "real_of_int nh < (real_of_int r + 1) ^ 3"
    using assms(3) by (metis of_int_less_iff of_int_power of_int_add of_int_1)
  then have "root 3 (real_of_int nh) < root 3 ((real_of_int r + 1) ^ 3)"
    by (rule real_root_less_mono [rotated]) simp
  then have hi: "root 3 (real_of_int nh) < real_of_int r + 1"
    using real_root_power_cancel [of 3 "real_of_int r + 1"] r0 by simp
  show ?thesis using lo hi by (simp add: floor_unique)
qed

lemma floor_root3_bounds:
  assumes "0 \<le> nh"
  shows "0 \<le> \<lfloor>root 3 (real_of_int nh)\<rfloor>
       \<and> \<lfloor>root 3 (real_of_int nh)\<rfloor> ^ 3 \<le> nh
       \<and> nh < (\<lfloor>root 3 (real_of_int nh)\<rfloor> + 1) ^ 3"
proof -
  define x where "x = root 3 (real_of_int nh)"
  define r where "r = \<lfloor>x\<rfloor>"
  have x0: "0 \<le> x" using assms by (simp add: x_def)
  have x3: "x ^ 3 = real_of_int nh" using assms by (simp add: x_def)
  have r0: "0 \<le> r" using x0 by (simp add: r_def)
  have "real_of_int r \<le> x" by (simp add: r_def)
  then have "real_of_int r ^ 3 \<le> x ^ 3"
    using r0 by (intro power_mono) simp_all
  then have lo: "r ^ 3 \<le> nh" using x3 by (metis of_int_le_iff of_int_power)
  have "x < real_of_int (r + 1)" by (simp add: r_def)
  then have "x ^ 3 < real_of_int (r + 1) ^ 3"
    using x0 by (intro power_strict_mono) simp_all
  then have hi: "nh < (r + 1) ^ 3" using x3 by (metis of_int_less_iff of_int_power)
  show ?thesis using r0 lo hi by (simp add: r_def x_def)
qed

lemma exact_pow_root:
  assumes "0 \<le> nh"
  shows "exact_pow (real_of_int nh) (1 / 3) = root 3 (real_of_int nh)"
proof (cases "nh = 0")
  case True
  then show ?thesis by (simp add: exact_pow_def)
next
  case False
  with assms have "0 < real_of_int nh" by simp
  then show ?thesis
    using root_powr_inverse [of 3 "real_of_int nh"] by (simp add: exact_pow_def)
qed

lemma cube_root_floor_exact:
  assumes "0 \<le> nh"
  shows "cube_root_floor exact_pow nh = \<lfloor>root 3 (real_of_int nh)\<rfloor>"
proof -
  have "0 \<le> root 3 (real_of_int nh)" using assms by simp
  then show ?thesis
    by (simp add: cube_root_floor_def exact_pow_root [OF assms] trunc_real_floor)
qed

lemma NGroot_odd:
  assumes "1 \<le> r" and "k = (if r mod 2 = 0 then r - 1 else r)"
  shows "odd k \<and> 0 < k \<and> k \<le> (r :: int)"
proof (cases "r mod 2 = 0")
  case True
  then have "k = r - 1" by (simp add: assms(2))
  with True assms(1) show ?thesis by presburger
next
  case False
  then have "k = r" by (simp add: assms(2))
  with False assms(1) show ?thesis by presburger
qed

subsection \<open>Arrays\<close>

lemma zip3_const_maps:
  "zip (map f zs) (zip (map g zs) (map h zs)) = map (\<lambda>z. (f z, g z, h z)) zs"
  by (induction zs) simp_all

lemma length_concat_const:
  "length (concat (map (\<lambda>y. map (f y) zs) ys)) = length ys * length zs"
  by (induction ys) simp_all

lemma columns_plane:
  "zip (concat (map (\<lambda>y. map (f y) zs) ys))
     (zip (concat (map (\<lambda>y. map (g y) zs) ys)) (concat (map (\<lambda>y. map (h y) zs) ys)))
   = concat (map (\<lambda>y. map (\<lambda>z. (f y z, g y z, h y z)) zs) ys)"
  by (induction ys) (simp_all add: zip3_const_maps)

lemma flatten_Cons: "flatten (p # ps) = concat p @ flatten ps"
  by (simp add: flatten_def)

lemma length_flatten_meshgrid:
  "length (flatten (map (\<lambda>x. map (\<lambda>y. map (f x y) zs) ys) xs))
     = length xs * length ys * length zs"
  by (induction xs) (simp_all add: flatten_def length_concat_const algebra_simps)

lemma columns_volume:
  "zip (flatten (map (\<lambda>x. map (\<lambda>y. map (f x y) zs) ys) xs))
     (zip (flatten (map (\<lambda>x. map (\<lambda>y. map (g x y) zs) ys) xs))
          (flatten (map (\<lambda>x. map (\<lambda>y. map (h x y) zs) ys) xs)))
   = concat (map (\<lambda>x. concat (map (\<lambda>y. map (\<lambda>z. (f x y z, g x y z, h x y z)) zs) ys)) xs)"
proof (induction xs)
  case Nil
  show ?case by (simp add: flatten_def)
next
  case (Cons x xs)
  show ?case
    by (simp add: flatten_Cons length_concat_const columns_plane Cons.IH)
qed

lemma product_as_concat:
  "concat (map (\<lambda>x. concat (map (\<lambda>y. map (\<lambda>z. (x, y, z)) zs) ys)) xs)
     = List.product xs (List.product ys zs)"
proof -
  have inner: "concat (map (\<lambda>y. map (\<lambda>z. (x, y, z)) zs) ys) = map (Pair x) (List.product ys zs)"
    for x :: 'a
    by (induction ys) simp_all
  show ?thesis
    by (induction xs) (simp_all add: inner)
qed

lemma columns_meshgrid:
  "columns (map3 flatten (meshgrid_ij xs ys zs)) = List.product xs (List.product ys zs)"
proof -
  have "columns (map3 flatten (meshgrid_ij xs ys zs))
          = zip (flatten (map (\<lambda>x. map (\<lambda>y. map (\<lambda>z. x) zs) ys) xs))
              (zip (flatten (map (\<lambda>x. map (\<lambda>y. map (\<lambda>z. y) zs) ys) xs))
                   (flatten (map (\<lambda>x. map (\<lambda>y. map (\<lambda>z. z) zs) ys) xs)))"
    unfolding meshgrid_ij_def map3.simps columns.simps ..
  also have "\<dots> = concat (map (\<lambda>x. concat (map (\<lambda>y. map (\<lambda>z. (x, y, z)) zs) ys)) xs)"
    by (rule columns_volume)
  finally show ?thesis by (simp only: product_as_concat)
qed

lemma rows_meshgrid:
  "\<exists>g0 g1 g2. map3 flatten (meshgrid_ij xs ys zs) = (g0, g1, g2)
      \<and> length g0 = length xs * length ys * length zs
      \<and> length g1 = length xs * length ys * length zs
      \<and> length g2 = length xs * length ys * length zs"
proof -
  have "length (flatten (map (\<lambda>x. map (\<lambda>y. map (\<lambda>z. x) zs) ys) xs))
          = length xs * length ys * length zs"
       "length (flatten (map (\<lambda>x. map (\<lambda>y. map (\<lambda>z. y) zs) ys) xs))
          = length xs * length ys * length zs"
       "length (flatten (map (\<lambda>x. map (\<lambda>y. map (\<lambda>z. z) zs) ys) xs))
          = length xs * length ys * length zs"
    by (rule length_flatten_meshgrid)+
  then show ?thesis
    unfolding meshgrid_ij_def map3.simps by blast
qed

lemma columns_take_indices:
  assumes "length g0 = n" "length g1 = n" "length g2 = n" "\<forall>j \<in> set js. j < n"
  shows "columns (map3 (\<lambda>g. take_indices g js) (g0, g1, g2))
           = take_indices (columns (g0, g1, g2)) js"
proof -
  have "columns (map3 (\<lambda>g. take_indices g js) (g0, g1, g2))
          = map (\<lambda>j. (g0 ! j, g1 ! j, g2 ! j)) js"
    by (simp add: take_indices_def zip3_const_maps)
  also have "\<dots> = map (\<lambda>j. zip g0 (zip g1 g2) ! j) js"
    using assms by (intro map_cong) simp_all
  finally show ?thesis by (simp add: take_indices_def)
qed

lemma mset_take_indices:
  assumes "mset js = mset [0..<length cs]"
  shows "mset (take_indices cs js) = mset cs"
proof -
  have "mset (take_indices cs js) = image_mset (\<lambda>j. cs ! j) (mset js)"
    by (simp add: take_indices_def)
  also have "\<dots> = mset (map (\<lambda>j. cs ! j) [0..<length cs])"
    by (simp add: assms)
  also have "\<dots> = mset cs"
    by (simp add: map_nth)
  finally show ?thesis .
qed

lemma mset_argsort: "mset (argsort keys) = mset [0..<length keys]"
  by (simp add: argsort_def)

lemma set_argsort: "set (argsort keys) = {0..<length keys}"
  by (simp add: argsort_def)

lemma sorted_take_indices_argsort: "sorted (take_indices keys (argsort keys))"
  unfolding take_indices_def argsort_def by (rule sorted_sort_key)

lemma Gl2_of_columns:
  assumes "length g0 = n" "length g1 = n" "length g2 = n"
  shows "Gl2_of Lk (g0, g1, g2) = map (Gl2_at Lk) (columns (g0, g1, g2))"
proof -
  obtain l0 l1 l2 where Lk: "Lk = (l0, l1, l2)" by (cases Lk) auto
  show ?thesis
  proof (rule nth_equalityI)
    show "length (Gl2_of Lk (g0, g1, g2)) = length (map (Gl2_at Lk) (columns (g0, g1, g2)))"
      using assms by (simp add: Gl2_of_def Gl2_step_def Lk)
  next
    fix p
    assume "p < length (Gl2_of Lk (g0, g1, g2))"
    then have p: "p < n"
      using assms by (simp add: Gl2_of_def Gl2_step_def Lk)
    show "Gl2_of Lk (g0, g1, g2) ! p = map (Gl2_at Lk) (columns (g0, g1, g2)) ! p"
      using assms p by (simp add: Gl2_of_def Gl2_step_def Lk)
  qed
qed

lemma slice_to_all: "int (length xs) = n \<Longrightarrow> slice_to n xs = xs"
  by (auto simp: slice_to_def)

lemma slice_to_Nil: "slice_to n [] = []"
  by (simp add: slice_to_def)

lemma length_arange_centered: "length (arange (- (k div 2)) (k - k div 2)) = nat k"
  by (simp add: arange_def)

lemma slice_to_cube:
  assumes "length xs = nat k ^ 3"
  shows "slice_to (k ^ 3) xs = xs"
proof (cases "0 \<le> k")
  case True
  then have "int (length xs) = k ^ 3"
    using assms by simp
  then show ?thesis by (rule slice_to_all)
next
  case False
  then have "xs = []" using assms by simp
  then show ?thesis by (simp add: slice_to_Nil)
qed

lemma length_take_indices: "length (take_indices g js) = length js"
  by (simp add: take_indices_def)

lemma length_argsort: "length (argsort keys) = length keys"
  by (simp add: argsort_def)

lemma parallelogramic_truncation_result:
  assumes "0 \<le> nh"
    and k: "k = (if cube_root_floor pw nh mod 2 = 0 then cube_root_floor pw nh - 1
                else cube_root_floor pw nh)"
    and xG: "xG = arange (- (k div 2)) (k - k div 2)"
  shows "\<exists>g0 g1 g2. parallelogramic_truncation pw nh Lk = Inr ((g0, g1, g2), k ^ 3)
           \<and> length g0 = nat k ^ 3 \<and> length g1 = nat k ^ 3 \<and> length g2 = nat k ^ 3
           \<and> mset (columns (g0, g1, g2)) = mset (List.product xG (List.product xG xG))
           \<and> sorted (Gl2_of Lk (g0, g1, g2))"
proof -
  define n where "n = nat k ^ 3"
  have lx: "length xG = nat k" by (simp add: xG length_arange_centered)
  obtain g0 g1 g2 where G: "map3 flatten (meshgrid_ij xG xG xG) = (g0, g1, g2)"
    and len: "length g0 = n" "length g1 = n" "length g2 = n"
    using rows_meshgrid [of xG xG xG] by (auto simp: lx n_def power3_eq_cube)
  define cols where "cols = columns (g0, g1, g2)"
  define Gl2 where "Gl2 = Gl2_of Lk (g0, g1, g2)"
  define jsort where "jsort = argsort Gl2"
  have lcols: "length cols = n" by (simp add: cols_def len)
  have Gl2_cols: "Gl2 = map (Gl2_at Lk) cols"
    unfolding Gl2_def cols_def using len by (rule Gl2_of_columns)
  then have lGl2: "length Gl2 = n" by (simp add: lcols)
  have js: "\<forall>j \<in> set jsort. j < n"
    by (simp add: jsort_def set_argsort lGl2)
  have ljs: "length jsort = n" by (simp add: jsort_def length_argsort lGl2)
  define s0 where "s0 = take_indices g0 jsort"
  define s1 where "s1 = take_indices g1 jsort"
  define s2 where "s2 = take_indices g2 jsort"
  have ls: "length s0 = nat k ^ 3" "length s1 = nat k ^ 3" "length s2 = nat k ^ 3"
    by (simp_all add: s0_def s1_def s2_def length_take_indices ljs n_def)
  have res: "parallelogramic_truncation pw nh Lk = Inr ((s0, s1, s2), k ^ 3)"
    using assms(1) ls
    by (simp add: parallelogramic_truncation_def Let_def k [symmetric] xG [symmetric] G
        Gl2_def [symmetric] jsort_def [symmetric] s0_def [symmetric] s1_def [symmetric]
        s2_def [symmetric] slice_to_cube)
  have scols: "columns (s0, s1, s2) = take_indices cols jsort"
    using columns_take_indices [OF len js] by (simp add: s0_def s1_def s2_def cols_def)
  have "mset (take_indices cols jsort) = mset cols"
    by (rule mset_take_indices) (simp add: jsort_def mset_argsort lGl2 lcols)
  moreover have "cols = List.product xG (List.product xG xG)"
    unfolding cols_def G [symmetric] by (rule columns_meshgrid)
  ultimately have perm: "mset (columns (s0, s1, s2)) = mset (List.product xG (List.product xG xG))"
    by (simp only: scols)
  have "Gl2_of Lk (s0, s1, s2) = map (Gl2_at Lk) (columns (s0, s1, s2))"
    using ls by (rule Gl2_of_columns)
  also have "\<dots> = map (\<lambda>j. Gl2_at Lk (cols ! j)) jsort"
    by (simp only: scols take_indices_def map_map comp_def)
  also have "\<dots> = map (\<lambda>j. Gl2 ! j) jsort"
    using js by (intro map_cong) (simp_all add: Gl2_cols lcols)
  also have "\<dots> = take_indices Gl2 (argsort Gl2)"
    by (simp add: take_indices_def jsort_def)
  finally have "sorted (Gl2_of Lk (s0, s1, s2))"
    by (simp add: sorted_take_indices_argsort)
  with res ls perm show ?thesis by blast
qed


subsection \<open>The parallelogrammic truncation\<close>

lemma reciprocal_defined:
  assumes "map3 float_vec (basis_vectors L) = (v0, v1, v2)" and "linearly_independent v0 v1 v2"
  shows "\<exists>Lk. reciprocal nu L = Inr Lk"
proof -
  have "det3 (matrix L) \<noteq> 0"
    using assms by (simp add: matrix_def det3_transpose3 det3_triple linearly_independent_triple)
  then obtain Mi where "inv3 nu (matrix L) = Inr Mi"
    using inv3_left by blast
  then have "reciprocal nu L = Inr (scale3 (2 * pi) (transpose3 Mi))"
    by (simp add: reciprocal_def)
  then show ?thesis ..
qed

lemma get_harmonics_parallelogrammic:
  assumes "truncation L = ''parallelogrammic''" and "harmonics_array L = None"
  shows "get_harmonics nu L (PyInt nh) =
           (case reciprocal nu L of
              Inl e \<Rightarrow> Inl e
            | Inr Lk \<Rightarrow> parallelogramic_truncation (float_power nu) nh Lk)"
  using assms by (cases "reciprocal nu L") (simp_all add: get_harmonics_def)

lemma full_cube:
  assumes "truncation L = ''parallelogrammic''" and "harmonics_array L = None"
    and "reciprocal nu L = Inr Lk" and "0 \<le> nh" and "1 \<le> r"
    and "r = cube_root_floor (float_power nu) nh"
    and "NGroot = (if even r then r - 1 else r)"
    and "M = NGroot div 2"
  shows "\<exists>g0 g1 g2. get_harmonics nu L (PyInt nh) = Inr ((g0, g1, g2), NGroot ^ 3)
           \<and> int (length g0) = NGroot ^ 3 \<and> int (length g1) = NGroot ^ 3
           \<and> int (length g2) = NGroot ^ 3
           \<and> distinct (columns (g0, g1, g2))
           \<and> set (columns (g0, g1, g2))
               = {- M ..< NGroot - M} \<times> {- M ..< NGroot - M} \<times> {- M ..< NGroot - M}"
proof -
  have k: "NGroot = (if cube_root_floor (float_power nu) nh mod 2 = 0 then cube_root_floor (float_power nu) nh - 1
                else cube_root_floor (float_power nu) nh)"
    unfolding assms(7) assms(6) by presburger
  define xG where "xG = arange (- (NGroot div 2)) (NGroot - NGroot div 2)"
  have k2: "NGroot = (if r mod 2 = 0 then r - 1 else r)"
    unfolding assms(7) by presburger
  have pos: "0 < NGroot"
    using NGroot_odd [OF assms(5) k2] by simp
  from parallelogramic_truncation_result [OF assms(4) k xG_def, of Lk]
  obtain g0 g1 g2 where res: "parallelogramic_truncation (float_power nu) nh Lk = Inr ((g0, g1, g2), NGroot ^ 3)"
    and len: "length g0 = nat NGroot ^ 3" "length g1 = nat NGroot ^ 3" "length g2 = nat NGroot ^ 3"
    and perm: "mset (columns (g0, g1, g2)) = mset (List.product xG (List.product xG xG))"
    by blast
  have ilen: "int (nat NGroot ^ 3) = NGroot ^ 3" using pos by simp
  have sx: "set xG = {- M ..< NGroot - M}"
    by (auto simp: xG_def arange_def assms(8))
  have dx: "distinct xG" by (simp add: xG_def arange_def)
  have "set (columns (g0, g1, g2)) = set (List.product xG (List.product xG xG))"
    using perm by (rule mset_eq_setD)
  then have s: "set (columns (g0, g1, g2))
      = {- M ..< NGroot - M} \<times> {- M ..< NGroot - M} \<times> {- M ..< NGroot - M}"
    by (simp only: set_product sx)
  have "distinct (List.product xG (List.product xG xG))"
    using dx by (intro distinct_product)
  then have d: "distinct (columns (g0, g1, g2))"
    using mset_eq_imp_distinct_iff [OF perm] by blast
  have "get_harmonics nu L (PyInt nh) = Inr ((g0, g1, g2), NGroot ^ 3)"
    using get_harmonics_parallelogrammic [OF assms(1,2)] res by (simp add: assms(3))
  with len ilen s d show ?thesis by (intro exI conjI) simp_all
qed

text \<open>
  With the exact power, \<open>NGroot\<close> is the floor of the cube root of \<open>nh\<close>, made odd,
  and the harmonics are the full cube of side \<open>NGroot\<close>.
\<close>

lemma full_cube_exact_pow:
  assumes "truncation L = ''parallelogrammic''" and "harmonics_array L = None"
    and "map3 float_vec (basis_vectors L) = (v0, v1, v2)" and "linearly_independent v0 v1 v2"
    and "1 \<le> nh"
    and "r = \<lfloor>root 3 (real_of_int nh)\<rfloor>"
    and "NGroot = (if even r then r - 1 else r)"
    and "M = NGroot div 2"
    and ex: "float_power nu = exact_pow"
  shows "\<exists>g0 g1 g2. get_harmonics nu L (PyInt nh) = Inr ((g0, g1, g2), NGroot ^ 3)
           \<and> int (length g0) = NGroot ^ 3 \<and> int (length g1) = NGroot ^ 3
           \<and> int (length g2) = NGroot ^ 3
           \<and> distinct (columns (g0, g1, g2))
           \<and> set (columns (g0, g1, g2))
               = {- M ..< NGroot - M} \<times> {- M ..< NGroot - M} \<times> {- M ..< NGroot - M}"
proof -
  obtain Lk where Lk: "reciprocal nu L = Inr Lk"
    using reciprocal_defined assms(3,4) by blast
  have nh0: "0 \<le> nh" using assms(5) by simp
  have r: "r = cube_root_floor (float_power nu) nh"
    using nh0 by (simp add: assms(6) ex cube_root_floor_exact)
  have b: "nh < (r + 1) ^ 3" "0 \<le> r"
    using floor_root3_bounds [OF nh0] by (simp_all add: assms(6))
  have r1: "1 \<le> r"
  proof (rule ccontr)
    assume "\<not> 1 \<le> r"
    with b(2) have "r = 0" by simp
    with b(1) assms(5) show False by simp
  qed
  show ?thesis
    by (rule full_cube [OF assms(1,2) Lk nh0 r1 r assms(7,8)])
qed

lemma Gl2_at_orthonormal:
  assumes "orthonormal Lk"
  shows "Gl2_at Lk (a, b, c) = 2 * ((of_int a)\<^sup>2 + (of_int b)\<^sup>2 + (of_int c)\<^sup>2)"
proof -
  obtain l0 l1 l2 where Lk: "Lk = (l0, l1, l2)" by (cases Lk) auto
  from assms have n: "norm_vec l0 = 1" "norm_vec l1 = 1" "norm_vec l2 = 1"
    and d: "dot l0 l1 = 0" "dot l1 l2 = 0" "dot l2 l0 = 0"
    by (simp_all add: Lk norm_vec_def)
  show ?thesis by (simp add: Lk n d)
qed

lemma Gl2_at_orthonormal_zero:
  assumes "orthonormal Lk" and "Gl2_at Lk col \<le> 0"
  shows "col = (0, 0, 0)"
proof -
  obtain a b c where col: "col = (a, b, c)" by (cases col) auto
  have "(real_of_int a)\<^sup>2 + (real_of_int b)\<^sup>2 + (real_of_int c)\<^sup>2 \<le> 0"
    using assms by (simp add: col Gl2_at_orthonormal)
  moreover have "0 \<le> (real_of_int a)\<^sup>2" "0 \<le> (real_of_int b)\<^sup>2" "0 \<le> (real_of_int c)\<^sup>2"
    by simp_all
  ultimately have "(real_of_int a)\<^sup>2 = 0 \<and> (real_of_int b)\<^sup>2 = 0 \<and> (real_of_int c)\<^sup>2 = 0"
    by linarith
  then show ?thesis by (simp add: col)
qed

lemma sorted_map_hd_le:
  assumes "sorted (map f cs)" and "x \<in> set cs"
  shows "f (hd cs) \<le> (f x :: real)"
proof (cases cs)
  case Nil
  with assms(2) show ?thesis by simp
next
  case (Cons c rest)
  with assms show ?thesis by auto
qed

lemma reciprocal_two_pi:
  "reciprocal nu \<lparr>truncation = t, basis_vectors = (FloatVec (2 * pi) 0 0, FloatVec 0 (2 * pi) 0, FloatVec 0 0 (2 * pi)),
      discretization = d, harmonics_array = ha\<rparr> = Inr identity3"
  by (simp add: reciprocal_def matrix_def inv3_def identity3_def Let_def power2_eq_square
      power3_eq_cube)

lemma orthonormal_identity3: "orthonormal identity3"
  by (simp add: identity3_def)

lemma exact_pow_27: "exact_pow 27 (1 / 3) = 3"
proof -
  have "root 3 (3 ^ 3) = (3 :: real)" by (rule real_root_power_cancel) simp_all
  then have "root 3 (real_of_int 27) = 3" by simp
  then show ?thesis using exact_pow_root [of 27] by simp
qed

text \<open>
  C1. The specification takes \<open>NGroot\<close> from the floor of the cube root of \<open>nh\<close>: for
  \<open>nh = 125\<close> that is \<open>5\<close>, and the harmonics would be the 125 triples over
  \<open>[-2, 3)\<close>. The code takes it from \<open>int(nh ** (1 / 3))\<close>. Whenever the power of the
  floats lies in \<open>[4, 5)\<close> at \<open>125\<close>, as the double \<open>4.999999999999999\<close> that Python
  computes does, \<open>get_harmonics(125)\<close> returns \<open>nh = 27\<close> and the 27 triples over
  \<open>[-1, 2)\<close>.
\<close>

theorem cube_root_of_125_rounded_down:
  assumes "truncation L = ''parallelogrammic''" and "harmonics_array L = None"
    and "map3 float_vec (basis_vectors L) = (v0, v1, v2)" and "linearly_independent v0 v1 v2"
    and "4 \<le> (float_power nu) 125 (1 / 3)" and "(float_power nu) 125 (1 / 3) < 5"
  shows "\<lfloor>root 3 (real_of_int 125)\<rfloor> = 5
         \<and> (\<exists>g0 g1 g2. get_harmonics nu L (PyInt 125) = Inr ((g0, g1, g2), 27)
               \<and> length g0 = 27 \<and> length g1 = 27 \<and> length g2 = 27
               \<and> distinct (columns (g0, g1, g2))
               \<and> set (columns (g0, g1, g2)) = {-1 ..< 2} \<times> {-1 ..< 2} \<times> {-1 ..< 2})"
proof -
  obtain Lk where Lk: "reciprocal nu L = Inr Lk"
    using reciprocal_defined assms(3,4) by blast
  have r: "cube_root_floor (float_power nu) 125 = 4"
    using assms(5,6) by (intro cube_root_floor_between) simp_all
  have "\<exists>g0 g1 g2. get_harmonics nu L (PyInt 125) = Inr ((g0, g1, g2), 3 ^ 3)
           \<and> int (length g0) = 3 ^ 3 \<and> int (length g1) = 3 ^ 3
           \<and> int (length g2) = 3 ^ 3
           \<and> distinct (columns (g0, g1, g2))
           \<and> set (columns (g0, g1, g2))
               = {- 1 ..< 3 - 1} \<times> {- 1 ..< 3 - 1} \<times> {- 1 ..< 3 - 1}"
    by (rule full_cube [OF assms(1,2) Lk, where r = 4]) (simp_all add: r)
  then have res: "\<exists>g0 g1 g2. get_harmonics nu L (PyInt 125) = Inr ((g0, g1, g2), 27)
               \<and> length g0 = 27 \<and> length g1 = 27 \<and> length g2 = 27
               \<and> distinct (columns (g0, g1, g2))
               \<and> set (columns (g0, g1, g2)) = {-1 ..< 2} \<times> {-1 ..< 2} \<times> {-1 ..< 2}"
    by simp
  have "\<lfloor>root 3 (real_of_int 125)\<rfloor> = 5"
    by (rule floor_root3_unique) simp_all
  with res show ?thesis by blast
qed

theorem cube_root_of_125_rounded_down_witness:
  "linearly_independent (1, 0, 0) (0, 1, 0) (0, 0, 1)
   \<and> (4 :: real) \<le> 4999999999999999 / 1000000000000000
   \<and> (4999999999999999 / 1000000000000000 :: real) < 5
   \<and> \<lfloor>root 3 (real_of_int 125)\<rfloor> = 5
   \<and> (\<exists>g0 g1 g2.
         get_harmonics
            \<lparr>float_power = (\<lambda>x y. 4999999999999999 / 1000000000000000),
             inv_singular = (\<lambda>m. None)\<rparr>
            \<lparr>truncation = ''parallelogrammic'',
             basis_vectors = (FloatVec 1 0 0, FloatVec 0 1 0, FloatVec 0 0 1),
             discretization = [PyInt 2, PyInt 2, PyInt 2], harmonics_array = None\<rparr> (PyInt 125)
           = Inr ((g0, g1, g2), 27)
         \<and> length g0 = 27 \<and> length g1 = 27 \<and> length g2 = 27
         \<and> distinct (columns (g0, g1, g2))
         \<and> set (columns (g0, g1, g2)) = {-1 ..< 2} \<times> {-1 ..< 2} \<times> {-1 ..< 2})"
  using cube_root_of_125_rounded_down [of "\<lparr>truncation = ''parallelogrammic'',
             basis_vectors = (FloatVec 1 0 0, FloatVec 0 1 0, FloatVec 0 0 1),
             discretization = [PyInt 2, PyInt 2, PyInt 2], harmonics_array = None\<rparr>"
          "(1, 0, 0)" "(0, 1, 0)" "(0, 0, 1)"
          "\<lparr>float_power = (\<lambda>x y. 4999999999999999 / 1000000000000000),
            inv_singular = (\<lambda>m. None)\<rparr>"]
    linearly_independent_unit
  by simp

text \<open>
  C2. For a lattice with truncation \<open>"parallelogrammic"\<close> and no harmonics array whose
  reciprocal matrix is \<open>Lk\<close>, and an integer \<open>nh \<ge> 0\<close>, \<open>get_harmonics(nh)\<close> returns
  harmonics whose values of \<open>Gl2\<close> (the loop of the truncation, run on the returned
  array) are in ascending order. For \<open>nh = 27\<close>, where the power of the floats is
  \<open>3.0\<close> (any value in \<open>[3, 5)\<close> gives the same \<open>NGroot\<close>), and an orthonormal \<open>Lk\<close>
  it returns 27 harmonics, the triples over \<open>{-1, 0, 1}\<close>, and the first is
  \<open>(0, 0, 0)\<close>, where \<open>Gl2\<close> is \<open>0\<close>.
\<close>

theorem harmonics_sorted_by_Gl2:
  assumes "truncation L = ''parallelogrammic''" and "harmonics_array L = None"
    and "reciprocal nu L = Inr Lk" and "0 \<le> nh"
  shows "\<exists>G n. get_harmonics nu L (PyInt nh) = Inr (G, n) \<and> sorted (Gl2_of Lk G)
           \<and> (nh = 27 \<and> 3 \<le> (float_power nu) 27 (1 / 3) \<and> (float_power nu) 27 (1 / 3) < 5 \<and> orthonormal Lk \<longrightarrow>
                n = 27 \<and> shape1 G = 27 \<and> length (columns G) = 27
                \<and> set (columns G) = {-1, 0, 1} \<times> {-1, 0, 1} \<times> {-1, 0, 1}
                \<and> hd (columns G) = (0, 0, 0) \<and> hd (Gl2_of Lk G) = 0)"
proof -
  define k where "k = (if cube_root_floor (float_power nu) nh mod 2 = 0 then cube_root_floor (float_power nu) nh - 1
                else cube_root_floor (float_power nu) nh)"
  define xG where "xG = arange (- (k div 2)) (k - k div 2)"
  from parallelogramic_truncation_result [OF assms(4) k_def xG_def, of Lk]
  obtain g0 g1 g2 where res: "parallelogramic_truncation (float_power nu) nh Lk = Inr ((g0, g1, g2), k ^ 3)"
    and len: "length g0 = nat k ^ 3" "length g1 = nat k ^ 3" "length g2 = nat k ^ 3"
    and perm: "mset (columns (g0, g1, g2)) = mset (List.product xG (List.product xG xG))"
    and srt: "sorted (Gl2_of Lk (g0, g1, g2))"
    by blast
  define cols where "cols = columns (g0, g1, g2)"
  have gh: "get_harmonics nu L (PyInt nh) = Inr ((g0, g1, g2), k ^ 3)"
    using get_harmonics_parallelogrammic [OF assms(1,2)] res by (simp add: assms(3))
  have Gl2_cols: "Gl2_of Lk (g0, g1, g2) = map (Gl2_at Lk) cols"
    unfolding cols_def using len by (rule Gl2_of_columns)
  have part: "k ^ 3 = 27 \<and> shape1 (g0, g1, g2) = 27 \<and> length cols = 27
                \<and> set cols = {-1, 0, 1} \<times> {-1, 0, 1} \<times> {-1, 0, 1}
                \<and> hd cols = (0, 0, 0) \<and> hd (Gl2_of Lk (g0, g1, g2)) = 0"
    if nh: "nh = 27" and lo: "3 \<le> (float_power nu) 27 (1 / 3)" and hi: "(float_power nu) 27 (1 / 3) < 5"
      and on: "orthonormal Lk"
  proof -
    have "cube_root_floor (float_power nu) 27 = 3 \<or> cube_root_floor (float_power nu) 27 = 4"
    proof (cases "(float_power nu) 27 (1 / 3) < 4")
      case True
      with lo have "cube_root_floor (float_power nu) 27 = 3"
        by (intro cube_root_floor_between) simp_all
      then show ?thesis ..
    next
      case False
      with hi have "cube_root_floor (float_power nu) 27 = 4"
        by (intro cube_root_floor_between) simp_all
      then show ?thesis ..
    qed
    then have k3: "k = 3" by (auto simp: k_def nh)
    have x: "xG = [-1, 0, 1]"
      by (simp add: xG_def k3 arange_def upto.simps)
    have l: "length cols = 27" using len by (simp add: cols_def k3)
    have l0: "shape1 (g0, g1, g2) = 27" using len by (simp add: k3)
    have "set cols = set (List.product xG (List.product xG xG))"
      unfolding cols_def using perm by (rule mset_eq_setD)
    then have s: "set cols = {-1, 0, 1} \<times> {-1, 0, 1} \<times> {-1, 0, 1}"
      by (simp only: set_product x list.set)
    then have z: "(0, 0, 0) \<in> set cols" by simp
    have "Gl2_at Lk (hd cols) \<le> Gl2_at Lk (0, 0, 0)"
      using srt z unfolding Gl2_cols by (rule sorted_map_hd_le)
    then have "Gl2_at Lk (hd cols) \<le> 0"
      using on by (simp add: Gl2_at_orthonormal)
    then have h: "hd cols = (0, 0, 0)"
      using on Gl2_at_orthonormal_zero by blast
    have ne: "cols \<noteq> []" using l by auto
    have "hd (Gl2_of Lk (g0, g1, g2)) = Gl2_at Lk (hd cols)"
      using ne by (simp add: Gl2_cols hd_map)
    then have h0: "hd (Gl2_of Lk (g0, g1, g2)) = 0"
      using on by (simp add: h Gl2_at_orthonormal)
    show ?thesis using k3 l l0 s h h0 by simp
  qed
  show ?thesis
    using gh srt part unfolding cols_def by blast
qed

theorem harmonics_sorted_by_Gl2_witness:
  "reciprocal exact_numerics \<lparr>truncation = ''parallelogrammic'',
      basis_vectors = (FloatVec (2 * pi) 0 0, FloatVec 0 (2 * pi) 0, FloatVec 0 0 (2 * pi)),
      discretization = [PyInt 2, PyInt 2, PyInt 2], harmonics_array = None\<rparr> = Inr identity3
   \<and> orthonormal identity3 \<and> float_power exact_numerics 27 (1 / 3) = 3
   \<and> (\<exists>G.
         get_harmonics exact_numerics \<lparr>truncation = ''parallelogrammic'',
            basis_vectors = (FloatVec (2 * pi) 0 0, FloatVec 0 (2 * pi) 0, FloatVec 0 0 (2 * pi)),
            discretization = [PyInt 2, PyInt 2, PyInt 2], harmonics_array = None\<rparr> (PyInt 27)
           = Inr (G, 27)
         \<and> sorted (Gl2_of identity3 G) \<and> shape1 G = 27 \<and> length (columns G) = 27
         \<and> set (columns G) = {-1, 0, 1} \<times> {-1, 0, 1} \<times> {-1, 0, 1}
         \<and> hd (columns G) = (0, 0, 0) \<and> hd (Gl2_of identity3 G) = 0)"
  using harmonics_sorted_by_Gl2 [of "\<lparr>truncation = ''parallelogrammic'',
            basis_vectors = (FloatVec (2 * pi) 0 0, FloatVec 0 (2 * pi) 0, FloatVec 0 0 (2 * pi)),
            discretization = [PyInt 2, PyInt 2, PyInt 2], harmonics_array = None\<rparr>"
          exact_numerics identity3 27]
    reciprocal_two_pi orthonormal_identity3 exact_pow_27
  by (auto simp: exact_numerics_def)

lemma power_accuracy_bounds:
  fixes p :: real
  assumes "1 \<le> nh" and "nh < 2 ^ 47"
    and acc: "\<bar>p - root 3 (real_of_int nh)\<bar> \<le> root 3 (real_of_int nh) / 2 ^ 49"
    and one: "nh = 1 \<Longrightarrow> p = 1"
  shows "1 \<le> p" and "p < real_of_int \<lfloor>root 3 (real_of_int nh)\<rfloor> + 1"
proof -
  define x where "x = root 3 (real_of_int nh)"
  define e :: real where "e = 1 / 2 ^ 49"
  define m where "m = \<lfloor>x\<rfloor> + 1"
  have nh0: "0 \<le> nh" using assms(1) by simp
  have x3: "x ^ 3 = real_of_int nh" using nh0 by (simp add: x_def)
  have x0: "0 \<le> x" using nh0 by (simp add: x_def)
  have e0: "0 < e" and e4: "e \<le> 1 / 4" and e16: "e \<le> 1 / 16" by (simp_all add: e_def)
  have sq: "0 \<le> e * e" by simp
  have ee: "e * e \<le> e / 4"
    using mult_left_mono [OF e4, of e] e0 by simp
  have eee: "e * e * e \<le> e / 16"
  proof -
    have "e * e * e \<le> (e / 4) * e" using ee e0 by (intro mult_right_mono) simp_all
    also have "\<dots> = (e * e) / 4" by simp
    also have "\<dots> \<le> (e / 4) / 4" using ee by simp
    finally show ?thesis by simp
  qed
  have acc': "\<bar>p - x\<bar> \<le> x * e"
    using acc by (simp add: x_def e_def)
  then have d: "p - x \<le> x * e" "x - p \<le> x * e" by linarith+
  have up: "p \<le> x * (1 + e)" using d(1) by (simp add: algebra_simps)
  have lo: "x * (1 - e) \<le> p" using d(2) by (simp add: algebra_simps)
  \<comment> \<open>the upper bound\<close>
  have b: "nh < m ^ 3" "0 \<le> \<lfloor>x\<rfloor>"
    using floor_root3_bounds [OF nh0] by (simp_all add: m_def x_def)
  then have "nh + 1 \<le> m ^ 3" by simp
  then have m3: "real_of_int nh + 1 \<le> real_of_int m ^ 3"
    by (metis of_int_le_iff of_int_power of_int_add of_int_1)
  have c1: "(1 + e) ^ 3 = 1 + (3 * e + 3 * (e * e) + e * e * e)"
    by (simp add: power3_eq_cube algebra_simps)
  have "3 * e + 3 * (e * e) + e * e * e \<le> 4 * e"
    using ee eee e0 by linarith
  then have "real_of_int nh * (3 * e + 3 * (e * e) + e * e * e) \<le> real_of_int nh * (4 * e)"
    using nh0 by (intro mult_left_mono) simp_all
  also have "\<dots> < 2 ^ 47 * (4 * e)"
    using assms(2) e0 by (intro mult_strict_right_mono) simp_all
  also have "\<dots> = 1" by (simp add: e_def)
  finally have small: "real_of_int nh * (3 * e + 3 * (e * e) + e * e * e) < 1" .
  have "(x * (1 + e)) ^ 3 = real_of_int nh * (1 + e) ^ 3"
    by (simp add: power_mult_distrib x3)
  also have "\<dots> = real_of_int nh + real_of_int nh * (3 * e + 3 * (e * e) + e * e * e)"
    by (simp add: c1 algebra_simps)
  also have "\<dots> < real_of_int nh + 1" using small by simp
  finally have "(x * (1 + e)) ^ 3 < real_of_int m ^ 3" using m3 by simp
  moreover have "0 \<le> real_of_int m" using b(2) by (simp add: m_def)
  ultimately have "x * (1 + e) < real_of_int m"
    by (rule power_less_imp_less_base)
  with up have "p < real_of_int m" by simp
  then show "p < real_of_int \<lfloor>root 3 (real_of_int nh)\<rfloor> + 1"
    by (simp add: m_def x_def)
  \<comment> \<open>the lower bound\<close>
  show "1 \<le> p"
  proof (cases "nh = 1")
    case True
    then show ?thesis using one by simp
  next
    case False
    with assms(1) have "2 \<le> real_of_int nh" by simp
    have c2: "(1 - e) ^ 3 = 1 - 3 * e + 3 * (e * e) - e * e * e"
      by (simp add: power3_eq_cube algebra_simps)
    have "1 / 2 \<le> (1 - e) ^ 3"
      unfolding c2 using eee e16 e0 sq by linarith
    moreover have "0 \<le> (1 - e) ^ 3" using e4 by simp
    ultimately have "2 * (1 / 2) \<le> real_of_int nh * (1 - e) ^ 3"
      using \<open>2 \<le> real_of_int nh\<close> by (intro mult_mono) simp_all
    then have "1 ^ 3 \<le> (x * (1 - e)) ^ 3"
      by (simp add: power_mult_distrib x3)
    moreover have "0 \<le> x * (1 - e)" using x0 e4 by simp
    ultimately have "1 \<le> x * (1 - e)"
      by (metis power_le_imp_le_base Suc_numeral semiring_norm(2,8) numeral_3_eq_3)
    with lo show ?thesis by simp
  qed
qed

text \<open>
  C10. For a lattice with truncation \<open>"parallelogrammic"\<close> and no harmonics array and
  an integer \<open>nh\<close> with \<open>1 \<le> nh < 2^47\<close>, where the power of the floats has a relative
  error of at most \<open>2^-49\<close> at \<open>nh\<close> and \<open>1 ** (1 / 3)\<close> is \<open>1.0\<close>: the count that
  \<open>get_harmonics(nh)\<close> returns is the cube of an odd positive integer, is the number of
  columns returned, and is at most \<open>nh\<close>; and \<open>get_harmonics(nh)\<close> does return when
  the basis vectors are linearly independent.
\<close>

theorem nh_actual_odd_cube:
  assumes "truncation L = ''parallelogrammic''" and "harmonics_array L = None"
    and "map3 float_vec (basis_vectors L) = (v0, v1, v2)"
    and "1 \<le> nh" and "nh < 2 ^ 47"
    and "\<bar>float_power nu (real_of_int nh) (1 / 3) - root 3 (real_of_int nh)\<bar>
           \<le> root 3 (real_of_int nh) / 2 ^ 49"
    and "float_power nu 1 (1 / 3) = 1"
  shows "(\<forall>G n. get_harmonics nu L (PyInt nh) = Inr (G, n) \<longrightarrow>
            (\<exists>k. n = k ^ 3 \<and> int (shape1 G) = n \<and> odd k \<and> 0 < k \<and> n \<le> nh))
         \<and> (linearly_independent v0 v1 v2 \<longrightarrow>
              (\<exists>G n. get_harmonics nu L (PyInt nh) = Inr (G, n)))"
proof -
  define r where "r = cube_root_floor (float_power nu) nh"
  define k where "k = (if r mod 2 = 0 then r - 1 else r)"
  have nh0: "0 \<le> nh" using assms(4) by simp
  have one: "float_power nu (real_of_int nh) (1 / 3) = 1" if "nh = 1"
    using that assms(7) by simp
  have p1: "1 \<le> float_power nu (real_of_int nh) (1 / 3)"
    and p2: "float_power nu (real_of_int nh) (1 / 3)
               < real_of_int \<lfloor>root 3 (real_of_int nh)\<rfloor> + 1"
    using power_accuracy_bounds [OF assms(4,5,6) one] by simp_all
  have x0: "0 \<le> (float_power nu) (real_of_int nh) (1 / 3)" using p1 by simp
  have rf: "r = \<lfloor>(float_power nu) (real_of_int nh) (1 / 3)\<rfloor>"
    unfolding r_def cube_root_floor_def using x0 by (rule trunc_real_floor)
  have r1: "1 \<le> r" unfolding rf using p1 by linarith
  have "\<lfloor>(float_power nu) (real_of_int nh) (1 / 3)\<rfloor> < \<lfloor>root 3 (real_of_int nh)\<rfloor> + 1"
    using p2 floor_less_iff [of "(float_power nu) (real_of_int nh) (1 / 3)" "\<lfloor>root 3 (real_of_int nh)\<rfloor> + 1"]
    by simp
  then have rle: "r \<le> \<lfloor>root 3 (real_of_int nh)\<rfloor>" unfolding rf by linarith
  have ok: "odd k" "0 < k" "k \<le> r"
    using NGroot_odd [OF r1 k_def] by simp_all
  have "k ^ 3 \<le> \<lfloor>root 3 (real_of_int nh)\<rfloor> ^ 3"
    using ok rle by (intro power_mono) simp_all
  also have "\<dots> \<le> nh" using floor_root3_bounds [OF nh0] by simp
  finally have kn: "k ^ 3 \<le> nh" .
  have kdef: "k = (if cube_root_floor (float_power nu) nh mod 2 = 0 then cube_root_floor (float_power nu) nh - 1
                else cube_root_floor (float_power nu) nh)"
    by (simp add: k_def r_def)
  have ret: "\<exists>g0 g1 g2. get_harmonics nu L (PyInt nh) = Inr ((g0, g1, g2), k ^ 3)
               \<and> length g0 = nat k ^ 3"
    if Lk: "reciprocal nu L = Inr Lk" for Lk
  proof -
    from parallelogramic_truncation_result [OF nh0 kdef refl, of Lk]
    obtain g0 g1 g2 where "parallelogramic_truncation (float_power nu) nh Lk = Inr ((g0, g1, g2), k ^ 3)"
      and "length g0 = nat k ^ 3"
      by blast
    then show ?thesis
      using get_harmonics_parallelogrammic [OF assms(1,2)] by (simp add: Lk)
  qed
  have first: "\<exists>k. n = k ^ 3 \<and> int (shape1 G) = n \<and> odd k \<and> 0 < k \<and> n \<le> nh"
    if g: "get_harmonics nu L (PyInt nh) = Inr (G, n)" for G n
  proof (cases "reciprocal nu L")
    case (Inl e)
    with g get_harmonics_parallelogrammic [OF assms(1,2), of nu nh] show ?thesis by simp
  next
    case (Inr Lk)
    from ret [OF Inr] g obtain g0 g1 g2 where "G = (g0, g1, g2)" "n = k ^ 3"
      "length g0 = nat k ^ 3"
      by auto
    then have "n = k ^ 3 \<and> int (shape1 G) = n \<and> odd k \<and> 0 < k \<and> n \<le> nh"
      using ok kn by simp
    then show ?thesis ..
  qed
  have second: "\<exists>G n. get_harmonics nu L (PyInt nh) = Inr (G, n)"
    if li: "linearly_independent v0 v1 v2"
  proof -
    obtain Lk where "reciprocal nu L = Inr Lk"
      using reciprocal_defined [OF assms(3) li] by blast
    from ret [OF this] show ?thesis by blast
  qed
  from first second show ?thesis by blast
qed

theorem nh_actual_odd_cube_witness:
  "linearly_independent (1, 0, 0) (0, 1, 0) (0, 0, 1) \<and> (1 :: int) \<le> 30 \<and> (30 :: int) < 2 ^ 47
   \<and> \<bar>float_power exact_numerics (real_of_int 30) (1 / 3) - root 3 (real_of_int 30)\<bar>
        \<le> root 3 (real_of_int 30) / 2 ^ 49
   \<and> float_power exact_numerics 1 (1 / 3) = 1
   \<and> (\<exists>G k.
         get_harmonics exact_numerics \<lparr>truncation = ''parallelogrammic'',
            basis_vectors = (FloatVec 1 0 0, FloatVec 0 1 0, FloatVec 0 0 1),
            discretization = [PyInt 2, PyInt 2, PyInt 2], harmonics_array = None\<rparr> (PyInt 30)
           = Inr (G, k ^ 3)
         \<and> int (shape1 G) = k ^ 3 \<and> odd k \<and> 0 < k \<and> k ^ 3 \<le> 30)"
proof -
  define L where "L = \<lparr>truncation = ''parallelogrammic'',
            basis_vectors = (FloatVec 1 0 0, FloatVec 0 1 0, FloatVec 0 0 1),
            discretization = [PyInt 2, PyInt 2, PyInt 2], harmonics_array = None\<rparr>"
  have e: "float_power exact_numerics (real_of_int 30) (1 / 3) = root 3 (real_of_int 30)"
    unfolding exact_numerics_def using exact_pow_root [of 30] by simp
  have acc: "\<bar>float_power exact_numerics (real_of_int 30) (1 / 3) - root 3 (real_of_int 30)\<bar>
        \<le> root 3 (real_of_int 30) / 2 ^ 49"
    unfolding e by simp
  have one: "float_power exact_numerics 1 (1 / 3) = 1"
    by (simp add: exact_numerics_def exact_pow_def)
  have li: "linearly_independent (1, 0, 0) (0, 1, 0) (0, 0, 1)"
    by (rule linearly_independent_unit)
  have "(\<forall>G n. get_harmonics exact_numerics L (PyInt 30) = Inr (G, n) \<longrightarrow>
            (\<exists>k. n = k ^ 3 \<and> int (shape1 G) = n \<and> odd k \<and> 0 < k \<and> n \<le> 30))
         \<and> (linearly_independent (1, 0, 0) (0, 1, 0) (0, 0, 1) \<longrightarrow>
              (\<exists>G n. get_harmonics exact_numerics L (PyInt 30) = Inr (G, n)))"
    using nh_actual_odd_cube [of L "(1, 0, 0)" "(0, 1, 0)" "(0, 0, 1)" 30 exact_numerics]
      acc one
    by (simp add: L_def)
  with li have "\<exists>G k. get_harmonics exact_numerics L (PyInt 30) = Inr (G, k ^ 3)
         \<and> int (shape1 G) = k ^ 3 \<and> odd k \<and> 0 < k \<and> k ^ 3 \<le> 30"
    by metis
  with li acc one show ?thesis unfolding L_def by simp
qed




section \<open>The unit grid\<close>

lemma linspace_unit:
  assumes "0 < n"
  shows "\<exists>xs. linspace 0 1 (PyInt n) = Inr xs \<and> length xs = nat n
           \<and> (\<forall>i < nat n. 0 \<le> xs ! i \<and> xs ! i \<le> 1)"
proof -
  define xs where "xs = map (\<lambda>i. if n = 1 then 0 else 0 + real i * ((1 - 0) / real_of_int (n - 1)))
                 [0..<nat n]"
  have eq: "linspace 0 1 (PyInt n) = Inr xs"
    using assms by (simp add: xs_def)
  have len: "length xs = nat n" by (simp add: xs_def)
  have "0 \<le> xs ! i \<and> xs ! i \<le> 1" if "i < nat n" for i
  proof (cases "n = 1")
    case True
    with that show ?thesis by (simp add: xs_def)
  next
    case False
    with assms have n2: "0 < real_of_int (n - 1)" by simp
    have "real i \<le> real_of_int (n - 1)" using that by linarith
    with n2 that False show ?thesis by (simp add: xs_def)
  qed
  with eq len show ?thesis by blast
qed

lemma meshgrid_ij_nth:
  assumes "meshgrid_ij xs ys zs = (gx, gy, gz)"
  shows "length gx = length xs \<and> length gy = length xs \<and> length gz = length xs"
    and "i < length xs \<Longrightarrow>
           length (gx ! i) = length ys \<and> length (gy ! i) = length ys \<and> length (gz ! i) = length ys"
    and "i < length xs \<Longrightarrow> j < length ys \<Longrightarrow>
           length (gx ! i ! j) = length zs \<and> length (gy ! i ! j) = length zs
           \<and> length (gz ! i ! j) = length zs"
    and "i < length xs \<Longrightarrow> j < length ys \<Longrightarrow> k < length zs \<Longrightarrow>
           gx ! i ! j ! k = xs ! i \<and> gy ! i ! j ! k = ys ! j \<and> gz ! i ! j ! k = zs ! k"
  using assms by (auto simp: meshgrid_ij_def)

text \<open>
  C9. For a lattice whose discretization is a tuple \<open>(Nx, Ny, Nz)\<close> of three positive
  integers, \<open>unit_grid\<close> returns an array of shape \<open>(3, Nx, Ny, Nz)\<close> whose values all
  lie in \<open>[0, 1]\<close>, and whose component \<open>c\<close> at position \<open>[i][j][k]\<close> is the sample
  of axis \<open>c\<close> (of \<open>linspace(0, 1.0, Nx)\<close> at \<open>i\<close>, of \<open>linspace(0, 1.0, Ny)\<close> at
  \<open>j\<close>, of \<open>linspace(0, 1.0, Nz)\<close> at \<open>k\<close>): no axis is transposed.
\<close>

theorem unit_grid_shape_range:
  assumes "discretization L = [PyInt Nx, PyInt Ny, PyInt Nz]"
    and "0 < Nx" and "0 < Ny" and "0 < Nz"
  shows "\<exists>U x0 y0 z0. unit_grid L = Inr U
           \<and> linspace 0 1 (PyInt Nx) = Inr x0 \<and> linspace 0 1 (PyInt Ny) = Inr y0
           \<and> linspace 0 1 (PyInt Nz) = Inr z0
           \<and> length U = 3
           \<and> (\<forall>c < 3. length (U ! c) = nat Nx
                \<and> (\<forall>i < nat Nx. length (U ! c ! i) = nat Ny
                     \<and> (\<forall>j < nat Ny. length (U ! c ! i ! j) = nat Nz
                          \<and> (\<forall>k < nat Nz. 0 \<le> U ! c ! i ! j ! k \<and> U ! c ! i ! j ! k \<le> 1))))
           \<and> (\<forall>i < nat Nx. \<forall>j < nat Ny. \<forall>k < nat Nz.
                 U ! 0 ! i ! j ! k = x0 ! i \<and> U ! 1 ! i ! j ! k = y0 ! j
                 \<and> U ! 2 ! i ! j ! k = z0 ! k)"
proof -
  obtain x0 where x0: "linspace 0 1 (PyInt Nx) = Inr x0" "length x0 = nat Nx"
    and rx: "\<forall>i < nat Nx. 0 \<le> x0 ! i \<and> x0 ! i \<le> 1"
    using linspace_unit [OF assms(2)] by blast
  obtain y0 where y0: "linspace 0 1 (PyInt Ny) = Inr y0" "length y0 = nat Ny"
    and ry: "\<forall>i < nat Ny. 0 \<le> y0 ! i \<and> y0 ! i \<le> 1"
    using linspace_unit [OF assms(3)] by blast
  obtain z0 where z0: "linspace 0 1 (PyInt Nz) = Inr z0" "length z0 = nat Nz"
    and rz: "\<forall>i < nat Nz. 0 \<le> z0 ! i \<and> z0 ! i \<le> 1"
    using linspace_unit [OF assms(4)] by blast
  obtain gx gy gz where m: "meshgrid_ij x0 y0 z0 = (gx, gy, gz)"
    by (cases "meshgrid_ij x0 y0 z0") auto
  define U where "U = [gx, gy, gz]"
  have U: "unit_grid L = Inr U"
    by (simp add: unit_grid_def assms(1) x0 y0 z0 m U_def del: linspace.simps)
  note mg = meshgrid_ij_nth [OF m, unfolded x0(2) y0(2) z0(2)]
  have c3: "c = 0 \<or> c = 1 \<or> c = 2" if "c < 3" for c :: nat
    using that by linarith
  have shape: "length (U ! c) = nat Nx
                \<and> (\<forall>i < nat Nx. length (U ! c ! i) = nat Ny
                     \<and> (\<forall>j < nat Ny. length (U ! c ! i ! j) = nat Nz
                          \<and> (\<forall>k < nat Nz. 0 \<le> U ! c ! i ! j ! k \<and> U ! c ! i ! j ! k \<le> 1)))"
    if "c < 3" for c
    using c3 [OF that] mg rx ry rz by (auto simp: U_def)
  have axes: "U ! 0 ! i ! j ! k = x0 ! i \<and> U ! 1 ! i ! j ! k = y0 ! j \<and> U ! 2 ! i ! j ! k = z0 ! k"
    if "i < nat Nx" "j < nat Ny" "k < nat Nz" for i j k
    using mg(4) [OF that] by (simp add: U_def)
  have "length U = 3" by (simp add: U_def)
  with U x0(1) y0(1) z0(1) shape axes show ?thesis by blast
qed

theorem unit_grid_shape_range_witness:
  "(0 :: int) < 2 \<and> (0 :: int) < 3 \<and> (0 :: int) < 1
   \<and> (\<exists>U. unit_grid \<lparr>truncation = ''parallelogrammic'',
              basis_vectors = (FloatVec 1 0 0, FloatVec 0 1 0, FloatVec 0 0 1),
              discretization = [PyInt 2, PyInt 3, PyInt 1], harmonics_array = None\<rparr> = Inr U
          \<and> length U = 3 \<and> length (U ! 1) = 2 \<and> length (U ! 1 ! 1) = 3
          \<and> length (U ! 1 ! 1 ! 2) = 1
          \<and> 0 \<le> U ! 1 ! 1 ! 2 ! 0 \<and> U ! 1 ! 1 ! 2 ! 0 \<le> 1
          \<and> U ! 0 ! 1 ! 2 ! 0 = 1 \<and> U ! 1 ! 1 ! 2 ! 0 = 1 \<and> U ! 1 ! 1 ! 1 ! 0 = 1 / 2
          \<and> U ! 2 ! 1 ! 2 ! 0 = 0)"
proof -
  define L where "L = \<lparr>truncation = ''parallelogrammic'',
              basis_vectors = (FloatVec 1 0 0, FloatVec 0 1 0, FloatVec 0 0 1),
              discretization = [PyInt 2, PyInt 3, PyInt 1], harmonics_array = None\<rparr>"
  have d: "discretization L = [PyInt 2, PyInt 3, PyInt 1]" by (simp add: L_def)
  from unit_grid_shape_range [OF d]
  obtain U x0 y0 z0 where U: "unit_grid L = Inr U" "length U = 3"
    and lin: "linspace 0 1 (PyInt 2) = Inr x0" "linspace 0 1 (PyInt 3) = Inr y0"
      "linspace 0 1 (PyInt 1) = Inr z0"
    and shape: "\<forall>c < 3. length (U ! c) = nat 2
                \<and> (\<forall>i < nat 2. length (U ! c ! i) = nat 3
                     \<and> (\<forall>j < nat 3. length (U ! c ! i ! j) = nat 1
                          \<and> (\<forall>k < nat 1. 0 \<le> U ! c ! i ! j ! k \<and> U ! c ! i ! j ! k \<le> 1)))"
    and axes: "\<forall>i < nat 2. \<forall>j < nat 3. \<forall>k < nat 1.
                 U ! 0 ! i ! j ! k = x0 ! i \<and> U ! 1 ! i ! j ! k = y0 ! j
                 \<and> U ! 2 ! i ! j ! k = z0 ! k"
    by auto
  have x0: "x0 = [0, 1]" and y0: "y0 = [0, 1 / 2, 1]" and z0: "z0 = [0]"
    using lin by (simp_all add: upt_rec)
  have s: "length (U ! 1) = 2 \<and> length (U ! 1 ! 1) = 3 \<and> length (U ! 1 ! 1 ! 2) = 1
          \<and> 0 \<le> U ! 1 ! 1 ! 2 ! 0 \<and> U ! 1 ! 1 ! 2 ! 0 \<le> 1"
    using shape by simp
  have a: "U ! 0 ! 1 ! 2 ! 0 = 1 \<and> U ! 1 ! 1 ! 2 ! 0 = 1 \<and> U ! 1 ! 1 ! 1 ! 0 = 1 / 2
          \<and> U ! 2 ! 1 ! 2 ! 0 = 0"
    using axes by (simp add: x0 y0 z0)
  show ?thesis
    using U s a unfolding L_def by simp
qed

end
